theory Spec2Isabelle
  imports Complex_Main "HOL-Library.Multiset" "HOL-Library.AList"
begin

section \<open>Python values and errors\<close>

text \<open>
  Every exception the modelled Python can raise is a value of \<open>py_error\<close>; a function that
  can raise returns \<open>py_error + 'a\<close> with \<open>Inl\<close> for the exception.  Floating-point numbers are
  modelled by exact rationals throughout, so every statement below is about exact arithmetic.
\<close>

datatype py_error =
    KeyError
  | IndexError
  | AttributeError
  | AssertionError
  | RuntimeError
  | TypeError
  | ValueError
  | EinopsError
  | ZeroDivisionError

text \<open>Sequencing of calls that may raise: the first exception ends the computation.\<close>

definition bind_err :: "py_error + 'a \<Rightarrow> ('a \<Rightarrow> py_error + 'b) \<Rightarrow> py_error + 'b" where
  "bind_err m f = (case m of Inl e \<Rightarrow> Inl e | Inr x \<Rightarrow> f x)"

text \<open>
  \<^verbatim>\<open>torch.randint(high, size=[1]).item()\<close>: the generator is made explicit as the raw draw it
  produces; the result is the draw reduced into \<open>[0, high)\<close>, and an empty range raises.
\<close>

definition randint :: "nat \<Rightarrow> nat \<Rightarrow> py_error + nat" where
  "randint high raw = (if high = 0 then Inl RuntimeError else Inr (raw mod high))"

text \<open>Python's \<^verbatim>\<open>s[i]\<close> on a string: a negative index counts from the end.\<close>

definition str_getitem :: "string \<Rightarrow> int \<Rightarrow> py_error + char" where
  "str_getitem s i =
     (if 0 \<le> i \<and> i < int (length s) then Inr (s ! nat i)
      else if - int (length s) \<le> i \<and> i < 0 then Inr (s ! nat (int (length s) + i))
      else Inl IndexError)"

section \<open>src/utils.py\<close>

definition LETTER_TO_BASES :: "(char \<times> string) list" where
  "LETTER_TO_BASES =
     [(CHR ''A'', ''A''), (CHR ''B'', ''CGT''), (CHR ''C'', ''C''), (CHR ''D'', ''AGT''),
      (CHR ''G'', ''G''), (CHR ''H'', ''ACT''), (CHR ''K'', ''GT''), (CHR ''M'', ''AC''),
      (CHR ''N'', ''ACGT''), (CHR ''R'', ''AG''), (CHR ''S'', ''CG''), (CHR ''T'', ''T''),
      (CHR ''V'', ''ACG''), (CHR ''W'', ''AT''), (CHR ''Y'', ''CT'')]"

definition INDEX_TO_BASE :: string where
  "INDEX_TO_BASE = ''ACGT''"

definition BASE_TO_INDEX :: "(char \<times> int) list" where
  "BASE_TO_INDEX = zip INDEX_TO_BASE (map int [0..<length INDEX_TO_BASE])"

text \<open>
  \<open>dna_to_tensor\<close>: the loop body looks the letter up (a \<open>KeyError\<close> for a letter outside the
  table), draws an index into its choices, and appends the index of the chosen base.  \<open>rng k\<close>
  is the raw value of the \<open>k\<close>-th draw.
\<close>

fun dna_to_tensor_loop :: "(nat \<Rightarrow> nat) \<Rightarrow> nat \<Rightarrow> string \<Rightarrow> int list \<Rightarrow> py_error + int list" where
  "dna_to_tensor_loop rng k [] sequence = Inr sequence"
| "dna_to_tensor_loop rng k (x # dna) sequence =
     (case map_of LETTER_TO_BASES x of
        None \<Rightarrow> Inl KeyError
      | Some choices \<Rightarrow>
          (case randint (length choices) (rng k) of
             Inl e \<Rightarrow> Inl e
           | Inr i \<Rightarrow>
               (case map_of BASE_TO_INDEX (choices ! i) of
                  None \<Rightarrow> Inl KeyError
                | Some b \<Rightarrow> dna_to_tensor_loop rng (Suc k) dna (sequence @ [b]))))"

definition dna_to_tensor :: "(nat \<Rightarrow> nat) \<Rightarrow> string \<Rightarrow> py_error + int list" where
  "dna_to_tensor rng dna = dna_to_tensor_loop rng 0 dna []"

text \<open>
  \<open>tensor_to_dna\<close>: the sequence is a one-dimensional tensor of integers (so the first
  assertion holds by typing); the second assertion rejects an \<open>eos\<close> that is a base index.
\<close>

fun tensor_to_dna_loop :: "int list \<Rightarrow> int \<Rightarrow> string \<Rightarrow> py_error + string" where
  "tensor_to_dna_loop [] eos dna = Inr dna"
| "tensor_to_dna_loop (idx # rest) eos dna =
     (if idx = eos then Inr dna
      else (case str_getitem INDEX_TO_BASE idx of
              Inl e \<Rightarrow> Inl e
            | Inr c \<Rightarrow> tensor_to_dna_loop rest eos (dna @ [c])))"

definition tensor_to_dna :: "int list \<Rightarrow> int \<Rightarrow> py_error + string" where
  "tensor_to_dna sequence eos =
     (if eos \<in> set (map snd BASE_TO_INDEX) then Inl AssertionError
      else tensor_to_dna_loop sequence eos [])"

text \<open>
  \<^verbatim>\<open>torch.roll(sequence, shifts=shift, dims=0)\<close> on a one-dimensional tensor: the tensor is cut at
  \<open>start = (size - shift) mod size\<close> and the two pieces are swapped; an empty tensor is returned
  as it is.
\<close>

definition roll :: "'a list \<Rightarrow> int \<Rightarrow> 'a list" where
  "roll xs shift =
     (if xs = [] then []
      else (let size = int (length xs); start = nat ((size - shift) mod size)
            in drop start xs @ take start xs))"

definition random_roll :: "nat \<Rightarrow> 'a list \<Rightarrow> py_error + 'a list" where
  "random_roll raw sequence =
     (case randint (length sequence) raw of
        Inl e \<Rightarrow> Inl e
      | Inr shift \<Rightarrow> Inr (roll sequence (int shift)))"

subsection \<open>Round trip of unambiguous DNA\<close>

lemma LETTER_TO_BASES_acgt:
  "map_of LETTER_TO_BASES (CHR ''A'') = Some ''A''"
  "map_of LETTER_TO_BASES (CHR ''C'') = Some ''C''"
  "map_of LETTER_TO_BASES (CHR ''G'') = Some ''G''"
  "map_of LETTER_TO_BASES (CHR ''T'') = Some ''T''"
  by (simp_all add: LETTER_TO_BASES_def)

lemma BASE_TO_INDEX_eq:
  "BASE_TO_INDEX = [(CHR ''A'', 0), (CHR ''C'', 1), (CHR ''G'', 2), (CHR ''T'', 3)]"
  by (simp add: BASE_TO_INDEX_def INDEX_TO_BASE_def upt_rec)

lemma INDEX_TO_BASE_getitem:
  "str_getitem INDEX_TO_BASE 0 = Inr (CHR ''A'')"
  "str_getitem INDEX_TO_BASE 1 = Inr (CHR ''C'')"
  "str_getitem INDEX_TO_BASE 2 = Inr (CHR ''G'')"
  "str_getitem INDEX_TO_BASE 3 = Inr (CHR ''T'')"
  by (simp_all add: str_getitem_def INDEX_TO_BASE_def)

lemma encode_letter:
  assumes "x \<in> {CHR ''A'', CHR ''C'', CHR ''G'', CHR ''T''}"
  shows "\<exists>b. map_of LETTER_TO_BASES x = Some [x] \<and> map_of BASE_TO_INDEX x = Some b \<and>
             b \<in> {0, 1, 2, 3} \<and> str_getitem INDEX_TO_BASE b = Inr x"
proof -
  from assms consider "x = CHR ''A''" | "x = CHR ''C''" | "x = CHR ''G''" | "x = CHR ''T''"
    by auto
  then show ?thesis
    by cases (simp_all add: LETTER_TO_BASES_acgt BASE_TO_INDEX_eq INDEX_TO_BASE_getitem)
qed

lemma BASE_TO_INDEX_values: "set (map snd BASE_TO_INDEX) = {0, 1, 2, 3}"
  by (auto simp: BASE_TO_INDEX_eq)

lemma dna_to_tensor_loop_step:
  assumes "map_of LETTER_TO_BASES x = Some [x]" and "map_of BASE_TO_INDEX x = Some b"
  shows "dna_to_tensor_loop rng k (x # dna) sequence
           = dna_to_tensor_loop rng (Suc k) dna (sequence @ [b])"
  using assms by (simp add: randint_def)

lemma dna_to_tensor_loop_acgt:
  assumes "set dna \<subseteq> {CHR ''A'', CHR ''C'', CHR ''G'', CHR ''T''}"
  shows "\<exists>t. dna_to_tensor_loop rng k dna acc = Inr (acc @ t) \<and>
             (\<forall>eos acc'. eos \<notin> {0, 1, 2, 3} \<longrightarrow>
                tensor_to_dna_loop t eos acc' = Inr (acc' @ dna))"
  using assms
proof (induction dna arbitrary: k acc)
  case Nil
  then show ?case by simp
next
  case (Cons x dna)
  from Cons.prems have x: "x \<in> {CHR ''A'', CHR ''C'', CHR ''G'', CHR ''T''}"
    and rest: "set dna \<subseteq> {CHR ''A'', CHR ''C'', CHR ''G'', CHR ''T''}"
    by simp_all
  from encode_letter [OF x] obtain b where
    letter: "map_of LETTER_TO_BASES x = Some [x]" and index: "map_of BASE_TO_INDEX x = Some b"
    and b: "b \<in> {0, 1, 2, 3}" and dec: "str_getitem INDEX_TO_BASE b = Inr x"
    by blast
  from Cons.IH [OF rest, of "Suc k" "acc @ [b]"] obtain t where
    t: "dna_to_tensor_loop rng (Suc k) dna (acc @ [b]) = Inr ((acc @ [b]) @ t)"
    and decode: "\<And>eos acc'. eos \<notin> {0, 1, 2, 3} \<Longrightarrow>
                 tensor_to_dna_loop t eos acc' = Inr (acc' @ dna)"
    by blast
  have enc: "dna_to_tensor_loop rng k (x # dna) acc = Inr (acc @ (b # t))"
    using dna_to_tensor_loop_step [OF letter index] t by simp
  have "tensor_to_dna_loop (b # t) eos acc' = Inr (acc' @ x # dna)"
    if "eos \<notin> {0, 1, 2, 3}" for eos acc'
  proof -
    from that b have "b \<noteq> eos" by auto
    then show ?thesis
      using dec decode [OF that, of "acc' @ [x]"] by simp
  qed
  with enc show ?case by blast
qed

text \<open>
  Claim C9.  For every DNA string over the letters A, C, G, T, every outcome of the random
  draws and every \<open>eos\<close> outside \<open>{0, 1, 2, 3}\<close>, encoding with \<open>dna_to_tensor\<close> succeeds and
  decoding the result with \<open>tensor_to_dna\<close> returns the string itself.
\<close>

theorem C9_dna_roundtrip:
  assumes "set dna \<subseteq> {CHR ''A'', CHR ''C'', CHR ''G'', CHR ''T''}"
    and "eos \<notin> {0, 1, 2, 3}"
  shows "\<exists>t. dna_to_tensor rng dna = Inr t \<and> tensor_to_dna t eos = Inr dna"
proof -
  from dna_to_tensor_loop_acgt [OF assms(1), of rng 0 "[]"] obtain t where
    "dna_to_tensor_loop rng 0 dna [] = Inr t"
    and "\<And>acc'. tensor_to_dna_loop t eos acc' = Inr (acc' @ dna)"
    using assms(2) by auto
  moreover have "eos \<notin> set (map snd BASE_TO_INDEX)"
    using assms(2) by (simp only: BASE_TO_INDEX_values) simp
  ultimately show ?thesis
    by (simp add: dna_to_tensor_def tensor_to_dna_def del: set_map)
qed

theorem C9_dna_roundtrip_witness:
  "set ''GATTACA'' \<subseteq> {CHR ''A'', CHR ''C'', CHR ''G'', CHR ''T''} \<and> (4::int) \<notin> {0, 1, 2, 3} \<and>
   (\<exists>t. dna_to_tensor (\<lambda>k. 7 * k + 3) ''GATTACA'' = Inr t \<and> tensor_to_dna t 4 = Inr ''GATTACA'')"
proof -
  have h1: "set ''GATTACA'' \<subseteq> {CHR ''A'', CHR ''C'', CHR ''G'', CHR ''T''}" by simp
  have h2: "(4::int) \<notin> {0, 1, 2, 3}" by simp
  from C9_dna_roundtrip [OF h1 h2, where rng = "\<lambda>k. 7 * k + 3"] h1 h2 show ?thesis
    by (intro conjI)
qed

subsection \<open>Random roll\<close>

lemma roll_length: "length (roll xs shift) = length xs"
  by (auto simp: roll_def Let_def)

lemma roll_mset: "mset (roll xs shift) = mset xs"
proof (cases "xs = []")
  case True
  then show ?thesis by (simp add: roll_def)
next
  case False
  define start where "start = nat ((int (length xs) - shift) mod int (length xs))"
  have "mset (drop start xs @ take start xs) = mset (take start xs @ drop start xs)"
    by (simp only: mset_append add.commute)
  then show ?thesis
    using False by (simp add: roll_def Let_def start_def)
qed

lemma roll_nth:
  assumes "k < length xs" and "i < length xs"
  shows "roll xs (int k) ! i = xs ! nat ((int i - int k) mod int (length xs))"
proof -
  let ?n = "length xs"
  from assms have ne: "xs \<noteq> []" by auto
  show ?thesis
  proof (cases "k = 0")
    case True
    with assms ne show ?thesis by (simp add: roll_def Let_def)
  next
    case False
    have "(int ?n - int k) mod int ?n = int ?n - int k"
      using False assms by (intro mod_pos_pos_trivial) auto
    then have start: "nat ((int ?n - int k) mod int ?n) = ?n - k"
      using assms by linarith
    have len: "length (drop (?n - k) xs) = k" using assms by simp
    show ?thesis
    proof (cases "i < k")
      case True
      have "(int i - int k) mod int ?n = (int i - int k + int ?n) mod int ?n"
        by simp
      also have "\<dots> = int i - int k + int ?n"
        using True assms by (intro mod_pos_pos_trivial) auto
      finally have idx: "nat ((int i - int k) mod int ?n) = ?n - k + i"
        using True assms by simp
      have "roll xs (int k) ! i = drop (?n - k) xs ! i"
        using ne start len True by (simp add: roll_def Let_def nth_append)
      also have "\<dots> = xs ! (?n - k + i)" using assms True by simp
      finally show ?thesis using idx by simp
    next
      case ge: False
      have "(int i - int k) mod int ?n = int i - int k"
        using ge assms by simp
      then have idx: "nat ((int i - int k) mod int ?n) = i - k"
        using ge by simp
      have "roll xs (int k) ! i = take (?n - k) xs ! (i - k)"
        using ne start len ge by (simp add: roll_def Let_def nth_append)
      also have "\<dots> = xs ! (i - k)" using assms ge by simp
      finally show ?thesis using idx by simp
    qed
  qed
qed

text \<open>
  Claim C10.  For every non-empty one-dimensional tensor and every outcome of the random draw,
  \<open>random_roll\<close> returns a tensor of the same length that is the input rotated by some shift
  \<open>k\<close> below the length, \<open>output[i] = s[(i - k) mod length s]\<close>; the multiset of elements is the
  input's.
\<close>

theorem C10_random_roll_rotation:
  assumes "s \<noteq> []"
  shows "\<exists>out k. random_roll raw s = Inr out \<and> length out = length s \<and> k < length s \<and>
           (\<forall>i<length s. out ! i = s ! nat ((int i - int k) mod int (length s))) \<and>
           mset out = mset s"
proof -
  let ?k = "raw mod length s"
  from assms have k: "?k < length s" by simp
  have "random_roll raw s = Inr (roll s (int ?k))"
    using assms by (simp add: random_roll_def randint_def)
  with k show ?thesis
    using roll_length [of s "int ?k"] roll_mset [of s "int ?k"] roll_nth [OF k]
    by blast
qed

theorem C10_random_roll_rotation_witness:
  "[10, 20, 30 :: int] \<noteq> [] \<and>
   (\<exists>out k. random_roll 4 [10, 20, 30 :: int] = Inr out \<and> length out = length [10, 20, 30 :: int] \<and>
      k < length [10, 20, 30 :: int] \<and>
      (\<forall>i<length [10, 20, 30 :: int].
         out ! i = [10, 20, 30] ! nat ((int i - int k) mod int (length [10, 20, 30 :: int]))) \<and>
      mset out = mset [10, 20, 30])"
proof -
  have h: "[10, 20, 30 :: int] \<noteq> []" by simp
  from C10_random_roll_rotation [OF h, where raw = 4] h show ?thesis
    by (intro conjI)
qed

section \<open>Tensors\<close>

text \<open>
  A tensor is its dtype, its shape and its elements in row-major order, as a contiguous torch
  tensor stores them; \<open>wf_tensor\<close> says that the number of elements is the product of the shape.
  The tensors modelled are the floating-point tensors of a checkpoint.  An element is the exact
  value it stands for, a rational number: arithmetic on elements is exact, and the infinities
  and NaN are outside the model.  What the model keeps of floating point is the conversion
  between dtypes, which rounds where the target cannot hold the value.
\<close>

datatype dtype = Float16 | BFloat16 | Float32 | Float64

record tensor =
  dtype :: dtype
  shape :: "nat list"
  data :: "rat list"

definition wf_tensor :: "tensor \<Rightarrow> bool" where
  "wf_tensor t = (length (data t) = prod_list (shape t))"

subsection \<open>Conversion between dtypes\<close>

text \<open>
  \<open>precision\<close> is the number of significant bits of a dtype and \<open>least_exponent dt = k\<close> says that
  its least positive value is \<open>2 ^ -k\<close>.  \<open>round_to\<close> rounds a value to the nearest value of the
  dtype, a tie to the one with even significand: scaled by \<open>2 ^ k\<close> the values of the dtype are
  the integers of at most \<open>precision\<close> significant bits.
\<close>

fun precision :: "dtype \<Rightarrow> nat" where
  "precision Float16 = 11"
| "precision BFloat16 = 8"
| "precision Float32 = 24"
| "precision Float64 = 53"

fun least_exponent :: "dtype \<Rightarrow> nat" where
  "least_exponent Float16 = 24"
| "least_exponent BFloat16 = 133"
| "least_exponent Float32 = 149"
| "least_exponent Float64 = 1074"

function bit_length :: "int \<Rightarrow> nat" where
  "bit_length n = (if n \<le> 0 then 0 else Suc (bit_length (n div 2)))"
  by pat_completeness auto
termination
  by (relation "measure nat") auto

declare bit_length.simps [simp del]

definition round_half_even :: "rat \<Rightarrow> int" where
  "round_half_even x =
     (let f = \<lfloor>x\<rfloor>; r = x - of_int f
      in if r < 1 / 2 then f else if 1 / 2 < r then f + 1 else if even f then f else f + 1)"

definition round_to :: "dtype \<Rightarrow> rat \<Rightarrow> rat" where
  "round_to dt x =
     (let k = 2 ^ least_exponent dt;
          y = \<bar>x\<bar> * k;
          q = 2 ^ (bit_length \<lfloor>y\<rfloor> - precision dt)
      in sgn x * of_int (round_half_even (y / q)) * q / k)"



text \<open>
  A conversion is exact when every value of the source dtype is a value of the target dtype;
  otherwise it rounds.  \<open>to_dtype\<close> is \<^verbatim>\<open>t.to(dtype)\<close>.
\<close>

definition exact_in :: "dtype \<Rightarrow> dtype \<Rightarrow> bool" where
  "exact_in src dst = (src = dst \<or> dst = Float64 \<or> (dst = Float32 \<and> src \<noteq> Float64))"

definition cast_value :: "dtype \<Rightarrow> dtype \<Rightarrow> rat \<Rightarrow> rat" where
  "cast_value src dst x = (if exact_in src dst then x else round_to dst x)"

definition to_dtype :: "dtype \<Rightarrow> tensor \<Rightarrow> tensor" where
  "to_dtype dst t = \<lparr>dtype = dst, shape = shape t, data = map (cast_value (dtype t) dst) (data t)\<rparr>"

subsection \<open>Multi-indices\<close>

text \<open>
  \<open>ravel\<close> and \<open>unravel\<close> convert between a multi-index and the flat position, \<open>item\<close> reads
  the element at a multi-index and \<open>tabulate\<close> builds the tensor of a dtype and a shape from its
  elements.
\<close>

fun valid_index :: "nat list \<Rightarrow> nat list \<Rightarrow> bool" where
  "valid_index [] [] = True"
| "valid_index (d # ds) (i # idx) = (i < d \<and> valid_index ds idx)"
| "valid_index _ _ = False"

fun ravel :: "nat list \<Rightarrow> nat list \<Rightarrow> nat" where
  "ravel (d # ds) (i # idx) = i * prod_list ds + ravel ds idx"
| "ravel _ _ = 0"

fun unravel :: "nat list \<Rightarrow> nat \<Rightarrow> nat list" where
  "unravel [] k = []"
| "unravel (d # ds) k = (k div prod_list ds) # unravel ds (k mod prod_list ds)"

definition item :: "tensor \<Rightarrow> nat list \<Rightarrow> rat" where
  "item t idx = data t ! ravel (shape t) idx"

definition tabulate :: "dtype \<Rightarrow> nat list \<Rightarrow> (nat list \<Rightarrow> rat) \<Rightarrow> tensor" where
  "tabulate dt s f =
     \<lparr>dtype = dt, shape = s, data = map (\<lambda>k. f (unravel s k)) [0..<prod_list s]\<rparr>"

subsection \<open>The torch operations of \<open>inflate_weight\<close>\<close>

text \<open>
  \<^verbatim>\<open>torch.zeros(*size)\<close>: a tensor of zeros of the given shape and of the default dtype,
  float32; called with no size at all (the shape of a zero-dimensional tensor, unpacked) it
  raises \<open>TypeError\<close>.
\<close>

definition zeros :: "nat list \<Rightarrow> tensor" where
  "zeros sizes = \<lparr>dtype = Float32, shape = sizes, data = replicate (prod_list sizes) 0\<rparr>"

definition torch_zeros :: "nat list \<Rightarrow> py_error + tensor" where
  "torch_zeros sizes = (if sizes = [] then Inl TypeError else Inr (zeros sizes))"

text \<open>
  \<^verbatim>\<open>t.unsqueeze(d)\<close> inserts a dimension of size one at position \<open>d\<close>, which must not exceed
  the rank; the elements stay as they are.
\<close>

definition unsqueeze :: "nat \<Rightarrow> tensor \<Rightarrow> py_error + tensor" where
  "unsqueeze d t =
     (if d \<le> length (shape t)
      then Inr (t\<lparr>shape := take d (shape t) @ 1 # drop d (shape t)\<rparr>)
      else Inl IndexError)"

text \<open>
  \<^verbatim>\<open>t.repeat(*sizes)\<close> tiles the tensor \<open>sizes[k]\<close> times along dimension \<open>k\<close>.  There must be
  at least as many sizes as dimensions; a tensor of lower rank is read with leading dimensions
  of size one.  The element at a multi-index of the result is the element of the input at the
  index reduced modulo the input's shape.
\<close>

definition repeat :: "nat list \<Rightarrow> tensor \<Rightarrow> py_error + tensor" where
  "repeat sizes t =
     (if length sizes < length (shape t) then Inl RuntimeError
      else (let padded = replicate (length sizes - length (shape t)) 1 @ shape t
            in Inr (tabulate (dtype t) (map2 (*) padded sizes)
                      (\<lambda>idx. data t ! ravel padded (map2 (\<lambda>i d. i mod d) idx padded)))))"

text \<open>
  \<^verbatim>\<open>weight_3d[:, :, middle_idx, :, :] = v\<close>: five indices need five dimensions, the integer
  index must lie inside the third dimension, and \<open>v\<close> is broadcast to the shape of the slice
  (aligned at the trailing dimensions, each dimension equal or one).  The elements of \<open>v\<close> are
  converted to the dtype of the tensor assigned to, which keeps its dtype.  In \<open>inflate_weight\<close>
  the value never has more dimensions than the slice.
\<close>

definition broadcastable :: "nat list \<Rightarrow> nat list \<Rightarrow> bool" where
  "broadcastable vs ts =
     (length vs \<le> length ts \<and>
      list_all2 (\<lambda>v t. v = t \<or> v = 1) vs (drop (length ts - length vs) ts))"

definition expand_index :: "nat list \<Rightarrow> nat list \<Rightarrow> nat list" where
  "expand_index vs idx =
     map2 (\<lambda>i v. if v = 1 then 0 else i) (drop (length idx - length vs) idx) vs"

definition setitem_time :: "nat \<Rightarrow> tensor \<Rightarrow> tensor \<Rightarrow> py_error + tensor" where
  "setitem_time middle_idx v t =
     (if length (shape t) < 5 then Inl IndexError
      else if \<not> middle_idx < shape t ! 2 then Inl IndexError
      else if \<not> broadcastable (shape v) (take 2 (shape t) @ drop 3 (shape t)) then Inl RuntimeError
      else Inr (tabulate (dtype t) (shape t)
                  (\<lambda>idx. if idx ! 2 = middle_idx
                         then cast_value (dtype v) (dtype t)
                                (item v (expand_index (shape v) (take 2 idx @ drop 3 idx)))
                         else item t idx)))"

text \<open>
  \<^verbatim>\<open>t / n\<close>: every element divided by the integer \<open>n\<close> (true division); a floating-point
  tensor keeps its dtype.
\<close>

definition div_scalar :: "tensor \<Rightarrow> nat \<Rightarrow> tensor" where
  "div_scalar t n = t\<lparr>data := map (\<lambda>x. x / of_nat n) (data t)\<rparr>"

subsection \<open>\<open>inflate_weight\<close>\<close>

definition inflate_weight :: "tensor \<Rightarrow> nat \<Rightarrow> bool \<Rightarrow> py_error + tensor" where
  "inflate_weight weight_2d time_dim center =
     (if center then
        bind_err (torch_zeros (shape weight_2d)) (\<lambda>z.
        bind_err (unsqueeze 2 z) (\<lambda>u.
        bind_err (repeat [1, 1, time_dim, 1, 1] u) (\<lambda>weight_3d.
        setitem_time (time_dim div 2) weight_2d weight_3d)))
      else
        bind_err (unsqueeze 2 weight_2d) (\<lambda>u.
        bind_err (repeat [1, 1, time_dim, 1, 1] u) (\<lambda>weight_3d.
        Inr (div_scalar weight_3d time_dim))))"

text \<open>
  The observations the claims about \<open>inflate_weight\<close> are stated with: the temporal slice
  \<^verbatim>\<open>t[:, :, i, :, :]\<close> and the sum over the temporal axis \<^verbatim>\<open>t.sum(dim=2)\<close>.
\<close>

definition select_time :: "tensor \<Rightarrow> nat \<Rightarrow> py_error + tensor" where
  "select_time t i =
     (if length (shape t) < 5 \<or> \<not> i < shape t ! 2 then Inl IndexError
      else Inr (tabulate (dtype t) (take 2 (shape t) @ drop 3 (shape t))
                  (\<lambda>idx. item t (take 2 idx @ i # drop 2 idx))))"

definition sum_time :: "tensor \<Rightarrow> py_error + tensor" where
  "sum_time t =
     (if length (shape t) < 3 then Inl IndexError
      else Inr (tabulate (dtype t) (take 2 (shape t) @ drop 3 (shape t))
                  (\<lambda>idx. \<Sum>i\<leftarrow>[0..<shape t ! 2]. item t (take 2 idx @ i # drop 2 idx))))"

subsection \<open>Facts about multi-indices\<close>

lemma valid_index_length: "valid_index s idx \<Longrightarrow> length idx = length s"
  by (induction s idx rule: valid_index.induct) auto

lemma ravel_less: "valid_index s idx \<Longrightarrow> ravel s idx < prod_list s"
proof (induction s idx rule: valid_index.induct)
  case (2 d ds i idx)
  then have i: "i < d" and r: "ravel ds idx < prod_list ds" by simp_all
  have "i * prod_list ds + ravel ds idx < i * prod_list ds + prod_list ds"
    using r by simp
  also have "\<dots> = Suc i * prod_list ds" by simp
  also have "\<dots> \<le> d * prod_list ds"
    using i by (intro mult_le_mono1) simp
  finally show ?case by simp
qed simp_all

lemma unravel_ravel: "valid_index s idx \<Longrightarrow> unravel s (ravel s idx) = idx"
proof (induction s idx rule: valid_index.induct)
  case (2 d ds i idx)
  then have r: "ravel ds idx < prod_list ds" and ih: "unravel ds (ravel ds idx) = idx"
    by (simp_all add: ravel_less)
  from r show ?case by (simp add: ih)
qed simp_all

lemma valid_unravel: "k < prod_list s \<Longrightarrow> valid_index s (unravel s k)"
proof (induction s arbitrary: k)
  case (Cons d ds)
  then have pos: "0 < prod_list ds" by (cases "prod_list ds = 0") simp_all
  from Cons.prems have "k div prod_list ds < d"
    using pos by (simp add: less_mult_imp_div_less mult.commute)
  moreover have "k mod prod_list ds < prod_list ds" using pos by simp
  ultimately show ?case using Cons.IH by simp
qed simp

lemma ravel_unravel: "k < prod_list s \<Longrightarrow> ravel s (unravel s k) = k"
proof (induction s arbitrary: k)
  case (Cons d ds)
  then have pos: "0 < prod_list ds" by (cases "prod_list ds = 0") simp_all
  then have "ravel ds (unravel ds (k mod prod_list ds)) = k mod prod_list ds"
    using Cons.IH by simp
  then show ?case by simp
qed simp

lemma shape_tabulate [simp]: "shape (tabulate dt s f) = s"
  by (simp add: tabulate_def)

lemma dtype_tabulate [simp]: "dtype (tabulate dt s f) = dt"
  by (simp add: tabulate_def)

lemma wf_tabulate [simp]: "wf_tensor (tabulate dt s f)"
  by (simp add: tabulate_def wf_tensor_def)

lemma item_tabulate: "valid_index s idx \<Longrightarrow> item (tabulate dt s f) idx = f idx"
  by (simp add: item_def tabulate_def ravel_less unravel_ravel)

lemma tensor_eqI:
  assumes "wf_tensor a" and "wf_tensor b" and "dtype a = dtype b" and "shape a = shape b"
    and "\<And>idx. valid_index (shape a) idx \<Longrightarrow> item a idx = item b idx"
  shows "a = b"
proof -
  have "data a = data b"
  proof (rule nth_equalityI)
    show "length (data a) = length (data b)"
      using assms(1,2,4) by (simp add: wf_tensor_def)
  next
    fix k assume "k < length (data a)"
    then have k: "k < prod_list (shape a)" using assms(1) by (simp add: wf_tensor_def)
    from assms(5) [OF valid_unravel [OF k]] show "data a ! k = data b ! k"
      using k assms(4) by (simp add: item_def ravel_unravel)
  qed
  with assms(3,4) show ?thesis by simp
qed

lemma valid_index_Cons_iff:
  "valid_index (d # ds) idx = (\<exists>i rest. idx = i # rest \<and> i < d \<and> valid_index ds rest)"
  by (cases idx) auto

lemma valid_index_Nil_iff: "valid_index [] idx = (idx = [])"
  by (cases idx) auto

lemma tabulate_cong:
  assumes "\<And>idx. valid_index s idx \<Longrightarrow> f idx = g idx"
  shows "tabulate dt s f = tabulate dt s g"
  unfolding tabulate_def using assms by (simp add: valid_unravel)





lemma to_dtype_exact: "exact_in (dtype t) dst \<Longrightarrow> data (to_dtype dst t) = data t"
  by (simp add: to_dtype_def cast_value_def map_idI)


lemma shape_length4:
  assumes "length (s :: nat list) = 4"
  obtains a b c d where "s = [a, b, c, d]"
proof -
  from assms obtain a s1 where "s = a # s1" "length s1 = 3" by (cases s) auto
  moreover then obtain b s2 where "s1 = b # s2" "length s2 = 2" by (cases s1) auto
  moreover then obtain c s3 where "s2 = c # s3" "length s3 = 1" by (cases s2) auto
  moreover then obtain d where "s3 = [d]" by (cases s3) auto
  ultimately show ?thesis using that by simp
qed




definition example_weight :: tensor where
  "example_weight = \<lparr>dtype = Float32, shape = [1, 2, 1, 2], data = [3, 5, 7, 9]\<rparr>"


lemma wf_example_weight: "wf_tensor example_weight"
  by (simp add: wf_tensor_def example_weight_def)



lemma inflate_weight_center_example:
  "inflate_weight example_weight 3 True
     = Inr \<lparr>dtype = Float32, shape = [1, 2, 3, 1, 2],
            data = [0, 0, 3, 5, 0, 0, 0, 0, 7, 9, 0, 0]\<rparr>"
  by code_simp




lemma div_scalar_tabulate:
  "div_scalar (tabulate dt s f) n = tabulate dt s (\<lambda>idx. f idx / of_nat n)"
  by (simp add: div_scalar_def tabulate_def)

lemma wf_div_scalar: "wf_tensor t \<Longrightarrow> wf_tensor (div_scalar t n)"
  by (simp add: wf_tensor_def div_scalar_def)

lemma shape_div_scalar: "shape (div_scalar t n) = shape t"
  by (simp add: div_scalar_def)

lemma dtype_div_scalar: "dtype (div_scalar t n) = dtype t"
  by (simp add: div_scalar_def)

lemma item_div_scalar:
  "wf_tensor t \<Longrightarrow> valid_index (shape t) idx \<Longrightarrow> item (div_scalar t n) idx = item t idx / of_nat n"
  using ravel_less [of "shape t" idx] by (simp add: item_def div_scalar_def wf_tensor_def)

lemma inflate_weight_average_eq:
  assumes "shape w = [a, b, c, d]"
  shows "inflate_weight w T False =
           Inr (tabulate (dtype w) [a, b, T, c, d]
                  (\<lambda>idx. item w (take 2 idx @ drop 3 idx) / of_nat T))"
proof -
  let ?u = "\<lparr>dtype = dtype w, shape = [a, b, 1, c, d], data = data w\<rparr>"
  have u: "unsqueeze 2 w = Inr ?u"
    using assms by (simp add: unsqueeze_def)
  have "repeat [1, 1, T, 1, 1] ?u =
          Inr (tabulate (dtype w) [a, b, T, c, d]
                 (\<lambda>idx. data ?u ! ravel [a, b, 1, c, d] (map2 (\<lambda>i d. i mod d) idx [a, b, 1, c, d])))"
    by (simp add: repeat_def Let_def)
  also have "tabulate (dtype w) [a, b, T, c, d]
                 (\<lambda>idx. data ?u ! ravel [a, b, 1, c, d] (map2 (\<lambda>i d. i mod d) idx [a, b, 1, c, d]))
             = tabulate (dtype w) [a, b, T, c, d] (\<lambda>idx. item w (take 2 idx @ drop 3 idx))"
  proof (rule tabulate_cong)
    fix idx assume "valid_index [a, b, T, c, d] idx"
    then obtain i0 i1 i2 i3 i4 where idx: "idx = [i0, i1, i2, i3, i4]"
      and lt: "i0 < a" "i1 < b" "i2 < T" "i3 < c" "i4 < d"
      by (auto simp: valid_index_Cons_iff valid_index_Nil_iff)
    then show "data ?u ! ravel [a, b, 1, c, d] (map2 (\<lambda>i d. i mod d) idx [a, b, 1, c, d])
               = item w (take 2 idx @ drop 3 idx)"
      using assms by (simp add: item_def)
  qed
  finally have "repeat [1, 1, T, 1, 1] ?u =
      Inr (tabulate (dtype w) [a, b, T, c, d] (\<lambda>idx. item w (take 2 idx @ drop 3 idx)))" .
  with u show ?thesis
    by (simp add: inflate_weight_def bind_err_def div_scalar_tabulate)
qed

lemma sum_list_const_upt: "(\<Sum>i\<leftarrow>[0..<n]. (c::rat)) = of_nat n * c"
  by (induction n) (simp_all add: algebra_simps)

text \<open>
  Claim C6.  For every four-dimensional weight \<open>w\<close> and every \<open>T \<ge> 1\<close>,
  \<open>inflate_weight w T False\<close> returns a five-dimensional tensor each of whose \<open>T\<close> temporal slices
  is \<open>w\<close> divided by \<open>T\<close>, so that the sum over the temporal axis is \<open>w\<close> again (in exact
  arithmetic).
\<close>

theorem C6_inflate_weight_average:
  assumes "wf_tensor w" and "length (shape w) = 4" and "1 \<le> T"
  shows "\<exists>w3. inflate_weight w T False = Inr w3 \<and> wf_tensor w3 \<and>
              shape w3 = take 2 (shape w) @ T # drop 2 (shape w) \<and>
              (\<forall>t<T. select_time w3 t = Inr (div_scalar w T)) \<and>
              sum_time w3 = Inr w"
proof -
  from assms(2) obtain a b c d where s: "shape w = [a, b, c, d]"
    by (rule shape_length4)
  let ?f = "\<lambda>idx. item w (take 2 idx @ drop 3 idx) / of_nat T"
  let ?w3 = "tabulate (dtype w) [a, b, T, c, d] ?f"
  have item_w3: "item ?w3 (take 2 idx @ t # drop 2 idx) = item w idx / of_nat T"
    if "valid_index [a, b, c, d] idx" and "t < T" for idx t
  proof -
    from that obtain j0 j1 j2 j3 where idx: "idx = [j0, j1, j2, j3]"
      and lt: "j0 < a" "j1 < b" "j2 < c" "j3 < d"
      by (auto simp: valid_index_Cons_iff valid_index_Nil_iff)
    have v5: "valid_index [a, b, T, c, d] (take 2 idx @ t # drop 2 idx)"
      using idx lt that(2) by simp
    have "item ?w3 (take 2 idx @ t # drop 2 idx) = ?f (take 2 idx @ t # drop 2 idx)"
      by (rule item_tabulate [OF v5])
    also have "\<dots> = item w idx / of_nat T" using idx by simp
    finally show ?thesis .
  qed
  have eq: "inflate_weight w T False = Inr ?w3"
    by (rule inflate_weight_average_eq [OF s])
  have sel: "select_time ?w3 t = Inr (div_scalar w T)" if "t < T" for t
  proof -
    let ?sel = "tabulate (dtype w) [a, b, c, d] (\<lambda>idx. item ?w3 (take 2 idx @ t # drop 2 idx))"
    have "select_time ?w3 t = Inr ?sel"
      using that by (simp add: select_time_def)
    moreover have "?sel = div_scalar w T"
    proof (rule tensor_eqI)
      show "wf_tensor ?sel" by simp
      show "wf_tensor (div_scalar w T)" using assms(1) by (rule wf_div_scalar)
      show "dtype ?sel = dtype (div_scalar w T)" by (simp add: dtype_div_scalar)
      show "shape ?sel = shape (div_scalar w T)" using s by (simp add: shape_div_scalar)
    next
      fix idx assume "valid_index (shape ?sel) idx"
      then have v: "valid_index [a, b, c, d] idx" by simp
      have "item ?sel idx = item ?w3 (take 2 idx @ t # drop 2 idx)"
        using v by (simp add: item_tabulate)
      also have "\<dots> = item w idx / of_nat T" using v that by (rule item_w3)
      also have "\<dots> = item (div_scalar w T) idx"
        using assms(1) v s by (simp add: item_div_scalar)
      finally show "item ?sel idx = item (div_scalar w T) idx" .
    qed
    ultimately show ?thesis by simp
  qed
  have sum: "sum_time ?w3 = Inr w"
  proof -
    let ?sum = "tabulate (dtype w) [a, b, c, d]
                  (\<lambda>idx. \<Sum>i\<leftarrow>[0..<T]. item ?w3 (take 2 idx @ i # drop 2 idx))"
    have "sum_time ?w3 = Inr ?sum"
      by (simp add: sum_time_def)
    moreover have "?sum = w"
    proof (rule tensor_eqI)
      show "wf_tensor ?sum" by simp
      show "wf_tensor w" by (rule assms(1))
      show "dtype ?sum = dtype w" by simp
      show "shape ?sum = shape w" using s by simp
    next
      fix idx assume "valid_index (shape ?sum) idx"
      then have v: "valid_index [a, b, c, d] idx" by simp
      have "item ?sum idx = (\<Sum>i\<leftarrow>[0..<T]. item ?w3 (take 2 idx @ i # drop 2 idx))"
        using v by (simp add: item_tabulate)
      also have "map (\<lambda>i. item ?w3 (take 2 idx @ i # drop 2 idx)) [0..<T]
                   = map (\<lambda>i. item w idx / of_nat T) [0..<T]"
        by (rule map_cong) (simp_all add: item_w3 [OF v])
      also have "(\<Sum>i\<leftarrow>[0..<T]. item w idx / of_nat T) = of_nat T * (item w idx / of_nat T)"
        by (rule sum_list_const_upt)
      also have "\<dots> = item w idx" using assms(3) by simp
      finally show "item ?sum idx = item w idx" .
    qed
    ultimately show ?thesis by simp
  qed
  have "wf_tensor ?w3" by simp
  moreover have "shape ?w3 = take 2 (shape w) @ T # drop 2 (shape w)" using s by simp
  ultimately show ?thesis using eq sel sum by blast
qed

theorem C6_inflate_weight_average_witness:
  "wf_tensor example_weight \<and> length (shape example_weight) = 4 \<and> (1::nat) \<le> 3 \<and>
   (\<exists>w3. inflate_weight example_weight 3 False = Inr w3 \<and> wf_tensor w3 \<and>
      shape w3 = take 2 (shape example_weight) @ 3 # drop 2 (shape example_weight) \<and>
      (\<forall>t<3. select_time w3 t = Inr (div_scalar example_weight 3)) \<and>
      sum_time w3 = Inr example_weight)"
proof -
  have h2: "length (shape example_weight) = 4" by (simp add: example_weight_def)
  have h3: "(1::nat) \<le> 3" by simp
  from C6_inflate_weight_average [OF wf_example_weight h2 h3] wf_example_weight h2 h3
  show ?thesis by (intro conjI)
qed

lemma inflate_weight_average_example:
  "inflate_weight example_weight 3 False
     = Inr \<lparr>dtype = Float32, shape = [1, 2, 3, 1, 2],
            data = [1, 5 / 3, 1, 5 / 3, 1, 5 / 3, 7 / 3, 3, 7 / 3, 3, 7 / 3, 3]\<rparr>"
  by code_simp

section \<open>Loading a checkpoint\<close>

text \<open>
  A state dict is a Python dictionary from parameter names to tensors: an association list in
  insertion order.  Assigning to a key that is present keeps its position, and deleting a key
  that is absent raises \<open>KeyError\<close>.
\<close>

type_synonym state_dict = "(string \<times> tensor) list"

definition dict_setitem :: "string \<Rightarrow> tensor \<Rightarrow> state_dict \<Rightarrow> state_dict" where
  "dict_setitem k v d = AList.update k v d"

definition dict_delitem :: "string \<Rightarrow> state_dict \<Rightarrow> py_error + state_dict" where
  "dict_delitem k d = (if k \<in> fst ` set d then Inr (AList.delete k d) else Inl KeyError)"

text \<open>The lines the function prints.\<close>

datatype stdout_line =
    Ignore_line string
  | Inflate_line string "nat list" "nat list"
  | Init_center_line bool
  | Incompatible_keys_line "string list" "string list"

text \<open>
  The loop of \<open>load_state_dict\<close> over the keys of the checkpoint.  \<open>ks\<close> are the keys still to
  visit, \<open>sd\<close> is the checkpoint as updated so far and \<open>out\<close> the lines printed so far.
  \<open>inflate_weight\<close> prints its own line before it computes.
\<close>

fun inflate_loop ::
  "state_dict \<Rightarrow> bool \<Rightarrow> string list \<Rightarrow> state_dict \<Rightarrow> stdout_line list \<Rightarrow>
     py_error + state_dict \<times> stdout_line list" where
  "inflate_loop state_dict_3d center [] sd out = Inr (sd, out)"
| "inflate_loop state_dict_3d center (k # ks) sd out =
     (case map_of state_dict_3d k of
        None \<Rightarrow> inflate_loop state_dict_3d center ks sd out
      | Some p3d \<Rightarrow>
          (case map_of sd k of
             None \<Rightarrow> Inl KeyError
           | Some p \<Rightarrow>
               if shape p \<noteq> shape p3d then
                 if length (shape p3d) \<le> 3
                 then inflate_loop state_dict_3d center ks sd (out @ [Ignore_line k])
                 else
                   (case inflate_weight p (shape p3d ! 2) center of
                      Inl e \<Rightarrow> Inl e
                    | Inr w \<Rightarrow>
                        inflate_loop state_dict_3d center ks (dict_setitem k w sd)
                          (out @ [Inflate_line k (shape p) (shape p3d), Init_center_line center]))
               else inflate_loop state_dict_3d center ks sd out))"

text \<open>
  \<^verbatim>\<open>model.load_state_dict(state_dict, strict=False)\<close> of torch.  Every entry of the model's own
  state is looked up in the checkpoint: a missing key is recorded, a tensor of the model's shape
  is copied (converted to the dtype of the model's entry), and a tensor of another shape is a
  size mismatch.  A zero-dimensional entry of the
  model accepts a one-dimensional checkpoint tensor by its first element.  Keys of the
  checkpoint that the model does not have are recorded as unexpected.  With \<open>strict=False\<close>
  missing and unexpected keys are only reported, but a size mismatch raises \<open>RuntimeError\<close>
  all the same.
\<close>

definition load_param :: "tensor \<Rightarrow> tensor \<Rightarrow> py_error + tensor option" where
  "load_param param input_param =
     (if shape param = [] \<and> length (shape input_param) = 1 then
        (if data input_param = [] then Inl IndexError
         else Inr (Some (to_dtype (dtype param)
                 (input_param\<lparr>shape := [], data := [hd (data input_param)]\<rparr>))))
      else if shape input_param \<noteq> shape param then Inr None
      else Inr (Some (to_dtype (dtype param) input_param)))"

fun load_params ::
  "state_dict \<Rightarrow> state_dict \<Rightarrow> py_error + (state_dict \<times> string list \<times> string list)" where
  "load_params [] sd = Inr ([], [], [])"
| "load_params ((k, param) # rest) sd =
     bind_err (case map_of sd k of
                 None \<Rightarrow> Inr ((k, param), [k], [])
               | Some input_param \<Rightarrow>
                   bind_err (load_param param input_param) (\<lambda>r.
                     case r of
                       None \<Rightarrow> Inr ((k, param), [], [k])
                     | Some v \<Rightarrow> Inr ((k, v), [], [])))
       (\<lambda>(entry, missing, mismatch).
          bind_err (load_params rest sd) (\<lambda>(entries, missing_keys, error_msgs).
            Inr (entry # entries, missing @ missing_keys, mismatch @ error_msgs)))"

definition Module_load_state_dict ::
  "state_dict \<Rightarrow> state_dict \<Rightarrow> py_error + (state_dict \<times> string list \<times> string list)" where
  "Module_load_state_dict model sd =
     bind_err (load_params model sd) (\<lambda>(entries, missing_keys, error_msgs).
       if error_msgs \<noteq> [] then Inl RuntimeError
       else Inr (entries, missing_keys, filter (\<lambda>k. k \<notin> fst ` set model) (map fst sd)))"

text \<open>
  \<open>load_state_dict\<close>.  The model is given by its state dict.  \<open>load_state_dict_prepare\<close> is the
  function up to the call of \<^verbatim>\<open>model.load_state_dict\<close>: it returns the checkpoint that is handed
  to that call, the applied state.  The result of \<open>load_state_dict\<close> is the checkpoint as the
  function leaves it, the state of the model after loading, and the lines printed.
\<close>

definition load_state_dict_prepare ::
  "state_dict \<Rightarrow> state_dict \<Rightarrow> bool \<Rightarrow> py_error + state_dict \<times> stdout_line list" where
  "load_state_dict_prepare model state_dict center =
     bind_err (inflate_loop model center (map fst state_dict) state_dict []) (\<lambda>(sd, out).
     bind_err (dict_delitem ''head.weight'' sd) (\<lambda>sd.
     bind_err (dict_delitem ''head.bias'' sd) (\<lambda>sd.
     Inr (sd, out))))"

record load_result =
  applied_state :: state_dict
  model_state :: state_dict
  stdout :: "stdout_line list"

definition load_state_dict ::
  "state_dict \<Rightarrow> state_dict \<Rightarrow> bool \<Rightarrow> py_error + load_result" where
  "load_state_dict model state_dict center =
     bind_err (load_state_dict_prepare model state_dict center) (\<lambda>(sd, out).
     bind_err (Module_load_state_dict model sd) (\<lambda>(entries, missing_keys, unexpected_keys).
     Inr \<lparr>applied_state = sd, model_state = entries,
          stdout = out @ [Incompatible_keys_line missing_keys unexpected_keys]\<rparr>))"

lemma bind_err_Inr_iff:
  "bind_err m f = Inr y \<longleftrightarrow> (\<exists>x. m = Inr x \<and> f x = Inr y)"
  by (cases m) (simp_all add: bind_err_def)

lemma bind_err_Inl [simp]: "bind_err (Inl e) f = Inl e"
  by (simp add: bind_err_def)

lemma bind_err_Inr [simp]: "bind_err (Inr x) f = f x"
  by (simp add: bind_err_def)

lemma dict_setitem_keys:
  "map_of d k = Some p \<Longrightarrow> map fst (dict_setitem k v d) = map fst d"
  by (auto simp: dict_setitem_def update_keys dest: map_of_SomeD intro: rev_image_eqI)

lemma delete_key_set: "fst ` set (AList.delete k d) = fst ` set d - {k}"
proof -
  have "set (map fst (AList.delete k d)) = set (map fst d) - {k}"
    by (simp only: delete_keys set_removeAll)
  then show ?thesis by simp
qed

lemma dict_delitem_keys:
  assumes "dict_delitem k d = Inr d'"
  shows "k \<in> fst ` set d \<and> fst ` set d' = fst ` set d - {k}"
proof -
  from assms have k: "k \<in> fst ` set d" and d': "d' = AList.delete k d"
    by (simp_all add: dict_delitem_def split: if_splits)
  from k d' show ?thesis by (simp only: delete_key_set)
qed

lemma inflate_loop_keys:
  "inflate_loop state_dict_3d center ks sd out = Inr (sd', out') \<Longrightarrow> map fst sd' = map fst sd"
proof (induction state_dict_3d center ks sd out rule: inflate_loop.induct)
  case (1 state_dict_3d center sd out)
  then show ?case by simp
next
  case (2 state_dict_3d center k ks sd out)
  show ?case
  proof (cases "map_of state_dict_3d k")
    case None
    with 2 show ?thesis by simp
  next
    case (Some p3d)
    with "2.prems" obtain p where p: "map_of sd k = Some p"
      by (cases "map_of sd k") simp_all
    show ?thesis
    proof (cases "shape p \<noteq> shape p3d")
      case False
      with 2 Some p show ?thesis by simp
    next
      case ne: True
      show ?thesis
      proof (cases "length (shape p3d) \<le> 3")
        case True
        with 2 Some p ne show ?thesis by simp
      next
        case False
        with "2.prems" Some p ne obtain w where
          w: "inflate_weight p (shape p3d ! 2) center = Inr w"
          by (cases "inflate_weight p (shape p3d ! 2) center") simp_all
        from "2.IH"(3) [OF Some p ne False w] "2.prems" Some p ne False w
        have "map fst sd' = map fst (dict_setitem k w sd)" by simp
        with p show ?thesis by (simp add: dict_setitem_keys)
      qed
    qed
  qed
qed

subsection \<open>Concrete checkpoints\<close>

text \<open>
  A small model state (a positional embedding of shape \<open>(1, 2, 2)\<close> and a norm weight) and
  checkpoints for it: one saved from the model itself, which has no classification head, one
  that carries the two head entries, and one whose positional embedding has another length.
\<close>

definition example_model :: state_dict where
  "example_model =
     [(''pos_embed'', \<lparr>dtype = Float32, shape = [1, 2, 2], data = [0, 0, 0, 0]\<rparr>),
      (''norm_f.weight'', \<lparr>dtype = Float32, shape = [2], data = [1, 1]\<rparr>)]"

definition checkpoint_without_head :: state_dict where
  "checkpoint_without_head =
     [(''pos_embed'', \<lparr>dtype = Float32, shape = [1, 2, 2], data = [1, 2, 3, 4]\<rparr>),
      (''norm_f.weight'', \<lparr>dtype = Float32, shape = [2], data = [5, 6]\<rparr>)]"

definition checkpoint_with_head :: state_dict where
  "checkpoint_with_head =
     checkpoint_without_head @
     [(''head.weight'', \<lparr>dtype = Float32, shape = [3, 2], data = [1, 0, 0, 1, 1, 1]\<rparr>),
      (''head.bias'', \<lparr>dtype = Float32, shape = [3], data = [0, 0, 0]\<rparr>)]"

definition checkpoint_longer_pos_embed :: state_dict where
  "checkpoint_longer_pos_embed =
     [(''pos_embed'', \<lparr>dtype = Float32, shape = [1, 3, 2], data = [1, 2, 3, 4, 5, 6]\<rparr>),
      (''norm_f.weight'', \<lparr>dtype = Float32, shape = [2], data = [5, 6]\<rparr>),
      (''head.weight'', \<lparr>dtype = Float32, shape = [3, 2], data = [1, 0, 0, 1, 1, 1]\<rparr>),
      (''head.bias'', \<lparr>dtype = Float32, shape = [3], data = [0, 0, 0]\<rparr>)]"

subsection \<open>The classification-head keys\<close>

lemma load_state_dict_prepare_Inr:
  assumes "load_state_dict_prepare model state_dict center = Inr (sd, out)"
  shows "''head.weight'' \<notin> fst ` set sd \<and> ''head.bias'' \<notin> fst ` set sd \<and>
         ''head.weight'' \<in> fst ` set state_dict \<and> ''head.bias'' \<in> fst ` set state_dict"
proof -
  from assms obtain sd1 sd2 where
    loop: "inflate_loop model center (map fst state_dict) state_dict [] = Inr (sd1, out)"
    and d1: "dict_delitem ''head.weight'' sd1 = Inr sd2"
    and d2: "dict_delitem ''head.bias'' sd2 = Inr sd"
    by (auto simp: load_state_dict_prepare_def bind_err_Inr_iff)
  from inflate_loop_keys [OF loop] have "set (map fst sd1) = set (map fst state_dict)"
    by simp
  then have keys: "fst ` set sd1 = fst ` set state_dict" by simp
  from dict_delitem_keys [OF d1] dict_delitem_keys [OF d2] keys
  show ?thesis by auto
qed

lemma load_state_dict_prepare_missing:
  assumes "''head.weight'' \<notin> fst ` set state_dict \<or> ''head.bias'' \<notin> fst ` set state_dict"
    and "inflate_loop model center (map fst state_dict) state_dict [] = Inr (sd1, out)"
  shows "load_state_dict_prepare model state_dict center = Inl KeyError"
proof -
  from inflate_loop_keys [OF assms(2)] have "set (map fst sd1) = set (map fst state_dict)"
    by simp
  then have keys: "fst ` set sd1 = fst ` set state_dict" by simp
  show ?thesis
  proof (cases "''head.weight'' \<in> fst ` set state_dict")
    case False
    then show ?thesis
      using assms(2) keys by (simp add: load_state_dict_prepare_def dict_delitem_def)
  next
    case True
    with assms(1) have "''head.bias'' \<notin> fst ` set state_dict" by blast
    then have "''head.bias'' \<notin> fst ` set (AList.delete ''head.weight'' sd1)"
      using keys by (simp only: delete_key_set) simp
    then show ?thesis
      using assms(2) keys True by (simp add: load_state_dict_prepare_def dict_delitem_def)
  qed
qed

text \<open>
  Claim C2, as the code has it.  \<open>load_state_dict\<close> deletes the keys \<open>head.weight\<close> and
  \<open>head.bias\<close> from the checkpoint before it calls \<^verbatim>\<open>model.load_state_dict\<close>, so the state that
  is applied never contains them, and a call that returns was given a checkpoint holding both.
  A checkpoint that lacks one of the two keys makes \<open>load_state_dict\<close> raise before anything
  is applied: \<open>KeyError\<close> at the \<^verbatim>\<open>del\<close> statement, once the inflation loop has passed.
\<close>

theorem C2_head_keys_removed:
  "(\<forall>sd out. load_state_dict_prepare model state_dict center = Inr (sd, out) \<longrightarrow>
      ''head.weight'' \<notin> fst ` set sd \<and> ''head.bias'' \<notin> fst ` set sd) \<and>
   (\<forall>r. load_state_dict model state_dict center = Inr r \<longrightarrow>
      ''head.weight'' \<notin> fst ` set (applied_state r) \<and>
      ''head.bias'' \<notin> fst ` set (applied_state r) \<and>
      ''head.weight'' \<in> fst ` set state_dict \<and> ''head.bias'' \<in> fst ` set state_dict) \<and>
   (''head.weight'' \<notin> fst ` set state_dict \<or> ''head.bias'' \<notin> fst ` set state_dict \<longrightarrow>
      (\<exists>e. load_state_dict_prepare model state_dict center = Inl e \<and>
           load_state_dict model state_dict center = Inl e) \<and>
      (\<forall>sd out. inflate_loop model center (map fst state_dict) state_dict [] = Inr (sd, out) \<longrightarrow>
         load_state_dict model state_dict center = Inl KeyError))"
proof (intro conjI allI impI)
  fix sd out
  assume "load_state_dict_prepare model state_dict center = Inr (sd, out)"
  from load_state_dict_prepare_Inr [OF this]
  show "''head.weight'' \<notin> fst ` set sd" and "''head.bias'' \<notin> fst ` set sd"
    by simp_all
next
  fix r
  assume "load_state_dict model state_dict center = Inr r"
  then obtain sd out where
    prep: "load_state_dict_prepare model state_dict center = Inr (sd, out)"
    and r: "applied_state r = sd"
    by (auto simp: load_state_dict_def bind_err_Inr_iff)
  from load_state_dict_prepare_Inr [OF prep] r
  show "''head.weight'' \<notin> fst ` set (applied_state r)"
    and "''head.bias'' \<notin> fst ` set (applied_state r)"
    and "''head.weight'' \<in> fst ` set state_dict" and "''head.bias'' \<in> fst ` set state_dict"
    by simp_all
next
  assume missing:
    "''head.weight'' \<notin> fst ` set state_dict \<or> ''head.bias'' \<notin> fst ` set state_dict"
  show "\<exists>e. load_state_dict_prepare model state_dict center = Inl e \<and>
            load_state_dict model state_dict center = Inl e"
  proof (cases "inflate_loop model center (map fst state_dict) state_dict []")
    case (Inl e)
    then show ?thesis
      by (simp add: load_state_dict_def load_state_dict_prepare_def)
  next
    case (Inr res)
    obtain sd1 out where "res = (sd1, out)" by (cases res)
    with Inr load_state_dict_prepare_missing [OF missing] show ?thesis
      by (simp add: load_state_dict_def)
  qed
next
  fix sd out
  assume missing:
    "''head.weight'' \<notin> fst ` set state_dict \<or> ''head.bias'' \<notin> fst ` set state_dict"
    and "inflate_loop model center (map fst state_dict) state_dict [] = Inr (sd, out)"
  from load_state_dict_prepare_missing [OF this]
  show "load_state_dict model state_dict center = Inl KeyError"
    by (simp add: load_state_dict_def)
qed

lemma load_state_dict_without_head:
  "load_state_dict example_model checkpoint_without_head True = Inl KeyError"
  by code_simp

lemma load_state_dict_with_head:
  "load_state_dict example_model checkpoint_with_head True =
     Inr \<lparr>applied_state = checkpoint_without_head, model_state = checkpoint_without_head,
          stdout = [Incompatible_keys_line [] []]\<rparr>"
  by code_simp

theorem C2_head_keys_removed_witness:
  "load_state_dict example_model checkpoint_with_head True =
     Inr \<lparr>applied_state = checkpoint_without_head, model_state = checkpoint_without_head,
          stdout = [Incompatible_keys_line [] []]\<rparr> \<and>
   ''head.weight'' \<notin> fst ` set checkpoint_without_head \<and>
   ''head.bias'' \<notin> fst ` set checkpoint_without_head \<and>
   ''head.weight'' \<in> fst ` set checkpoint_with_head \<and>
   ''head.bias'' \<in> fst ` set checkpoint_with_head \<and>
   ''head.weight'' \<notin> fst ` set checkpoint_without_head \<and>
   (\<exists>e. load_state_dict_prepare example_model checkpoint_without_head True = Inl e \<and>
        load_state_dict example_model checkpoint_without_head True = Inl e)"
proof -
  have missing: "''head.weight'' \<notin> fst ` set checkpoint_without_head"
    by (simp add: checkpoint_without_head_def)
  from C2_head_keys_removed [of example_model checkpoint_with_head True]
    load_state_dict_with_head
  have "''head.weight'' \<notin> fst ` set checkpoint_without_head \<and>
        ''head.bias'' \<notin> fst ` set checkpoint_without_head \<and>
        ''head.weight'' \<in> fst ` set checkpoint_with_head \<and>
        ''head.bias'' \<in> fst ` set checkpoint_with_head"
    by simp
  moreover from C2_head_keys_removed [of example_model checkpoint_without_head True] missing
  have "\<exists>e. load_state_dict_prepare example_model checkpoint_without_head True = Inl e \<and>
            load_state_dict example_model checkpoint_without_head True = Inl e"
    by blast
  ultimately show ?thesis using load_state_dict_with_head missing by blast
qed

text \<open>
  Claim C2 as stated fails on a checkpoint saved from the model itself: it has neither head
  key, and \<open>load_state_dict\<close> raises \<open>KeyError\<close>.
\<close>

theorem C2_missing_head_keys_counterexample:
  "''head.weight'' \<notin> fst ` set checkpoint_without_head \<and>
   ''head.bias'' \<notin> fst ` set checkpoint_without_head \<and>
   load_state_dict example_model checkpoint_without_head True = Inl KeyError"
  using load_state_dict_without_head by (simp add: checkpoint_without_head_def)

subsection \<open>Entries whose shape differs from the model's\<close>

lemma map_of_dict_setitem:
  "map_of (dict_setitem k v d) k' = (if k' = k then Some v else map_of d k')"
  by (simp add: dict_setitem_def update_conv')

lemma inflate_loop_stdout:
  "inflate_loop state_dict_3d center ks sd out = Inr (sd', out') \<Longrightarrow> set out \<subseteq> set out'"
proof (induction state_dict_3d center ks sd out rule: inflate_loop.induct)
  case (1 state_dict_3d center sd out)
  then show ?case by simp
next
  case (2 state_dict_3d center k ks sd out)
  show ?case
  proof (cases "map_of state_dict_3d k")
    case None
    with 2 show ?thesis by simp
  next
    case (Some p3d)
    with "2.prems" obtain p where p: "map_of sd k = Some p"
      by (cases "map_of sd k") simp_all
    show ?thesis
    proof (cases "shape p \<noteq> shape p3d")
      case False
      with 2 Some p show ?thesis by simp
    next
      case ne: True
      show ?thesis
      proof (cases "length (shape p3d) \<le> 3")
        case True
        with 2 Some p ne have "set (out @ [Ignore_line k]) \<subseteq> set out'" by simp
        then show ?thesis by simp
      next
        case False
        with "2.prems" Some p ne obtain w where
          w: "inflate_weight p (shape p3d ! 2) center = Inr w"
          by (cases "inflate_weight p (shape p3d ! 2) center") simp_all
        from "2.IH"(3) [OF Some p ne False w] "2.prems" Some p ne False w
        have "set (out @ [Inflate_line k (shape p) (shape p3d), Init_center_line center])
                \<subseteq> set out'"
          by simp
        then show ?thesis by simp
      qed
    qed
  qed
qed

lemma inflate_loop_frame:
  "inflate_loop state_dict_3d center ks sd out = Inr (sd', out') \<Longrightarrow> k' \<notin> set ks \<Longrightarrow>
     map_of sd' k' = map_of sd k'"
proof (induction state_dict_3d center ks sd out rule: inflate_loop.induct)
  case (1 state_dict_3d center sd out)
  then show ?case by simp
next
  case (2 state_dict_3d center k ks sd out)
  from "2.prems"(2) have k': "k' \<noteq> k" "k' \<notin> set ks" by simp_all
  show ?case
  proof (cases "map_of state_dict_3d k")
    case None
    with 2 k' show ?thesis by simp
  next
    case (Some p3d)
    with "2.prems" obtain p where p: "map_of sd k = Some p"
      by (cases "map_of sd k") simp_all
    show ?thesis
    proof (cases "shape p \<noteq> shape p3d")
      case False
      with 2 k' Some p show ?thesis by simp
    next
      case ne: True
      show ?thesis
      proof (cases "length (shape p3d) \<le> 3")
        case True
        with 2 k' Some p ne show ?thesis by simp
      next
        case False
        with "2.prems" Some p ne obtain w where
          w: "inflate_weight p (shape p3d ! 2) center = Inr w"
          by (cases "inflate_weight p (shape p3d ! 2) center") simp_all
        from "2.IH"(3) [OF Some p ne False w _ k'(2)] "2.prems"(1) Some p ne False w
        have "map_of sd' k' = map_of (dict_setitem k w sd) k'" by simp
        with k' show ?thesis by (simp add: map_of_dict_setitem)
      qed
    qed
  qed
qed

lemma inflate_loop_entry:
  assumes "inflate_loop state_dict_3d center ks sd out = Inr (sd', out')"
    and "distinct ks" and "k' \<in> set ks"
    and "map_of sd k' = Some p'" and "map_of state_dict_3d k' = Some p3d'"
    and "shape p' \<noteq> shape p3d'"
  shows "(length (shape p3d') \<le> 3 \<longrightarrow> map_of sd' k' = Some p' \<and> Ignore_line k' \<in> set out') \<and>
         (3 < length (shape p3d') \<longrightarrow>
            (\<exists>w. inflate_weight p' (shape p3d' ! 2) center = Inr w \<and> map_of sd' k' = Some w \<and>
                 Inflate_line k' (shape p') (shape p3d') \<in> set out'))"
  using assms
proof (induction state_dict_3d center ks sd out rule: inflate_loop.induct)
  case (1 state_dict_3d center sd out)
  then show ?case by simp
next
  case (2 state_dict_3d center k ks sd out)
  from "2.prems"(2) have dist: "distinct ks" and notin: "k \<notin> set ks" by simp_all
  show ?case
  proof (cases "k' = k")
    case True
    note p = "2.prems"(4) [unfolded True] and p3d = "2.prems"(5) [unfolded True]
    show ?thesis
    proof (cases "length (shape p3d') \<le> 3")
      case le: True
      with "2.prems"(1,6) p p3d have
        rest: "inflate_loop state_dict_3d center ks sd (out @ [Ignore_line k]) = Inr (sd', out')"
        by simp
      from inflate_loop_frame [OF rest notin] inflate_loop_stdout [OF rest] p le True
      show ?thesis by auto
    next
      case gt: False
      with "2.prems"(1,6) p p3d obtain w where
        w: "inflate_weight p' (shape p3d' ! 2) center = Inr w"
        by (cases "inflate_weight p' (shape p3d' ! 2) center") simp_all
      with "2.prems"(1,6) p p3d gt have
        rest: "inflate_loop state_dict_3d center ks (dict_setitem k w sd)
                 (out @ [Inflate_line k (shape p') (shape p3d'), Init_center_line center])
               = Inr (sd', out')"
        by simp
      from inflate_loop_frame [OF rest notin] inflate_loop_stdout [OF rest] w gt True
      show ?thesis by (auto simp: map_of_dict_setitem)
    qed
  next
    case other: False
    with "2.prems"(3) have mem: "k' \<in> set ks" by simp
    show ?thesis
    proof (cases "map_of state_dict_3d k")
      case None
      with "2.prems"(1) have "inflate_loop state_dict_3d center ks sd out = Inr (sd', out')"
        by simp
      from "2.IH"(1) [OF None this dist mem "2.prems"(4,5,6)] show ?thesis .
    next
      case (Some p3d)
      with "2.prems"(1) obtain p where p: "map_of sd k = Some p"
        by (cases "map_of sd k") simp_all
      show ?thesis
      proof (cases "shape p \<noteq> shape p3d")
        case False
        with "2.prems"(1) Some p
        have "inflate_loop state_dict_3d center ks sd out = Inr (sd', out')" by simp
        from "2.IH"(4) [OF Some p False this dist mem "2.prems"(4,5,6)] show ?thesis .
      next
        case ne: True
        show ?thesis
        proof (cases "length (shape p3d) \<le> 3")
          case True
          with "2.prems"(1) Some p ne
          have "inflate_loop state_dict_3d center ks sd (out @ [Ignore_line k]) = Inr (sd', out')"
            by simp
          from "2.IH"(2) [OF Some p ne True this dist mem "2.prems"(4,5,6)] show ?thesis .
        next
          case False
          with "2.prems"(1) Some p ne obtain w where
            w: "inflate_weight p (shape p3d ! 2) center = Inr w"
            by (cases "inflate_weight p (shape p3d ! 2) center") simp_all
          with "2.prems"(1) Some p ne False have
            rest: "inflate_loop state_dict_3d center ks (dict_setitem k w sd)
                     (out @ [Inflate_line k (shape p) (shape p3d), Init_center_line center])
                   = Inr (sd', out')"
            by simp
          have "map_of (dict_setitem k w sd) k' = Some p'"
            using other "2.prems"(4) by (simp add: map_of_dict_setitem)
          from "2.IH"(3) [OF Some p ne False w rest dist mem this "2.prems"(5,6)]
          show ?thesis .
        qed
      qed
    qed
  qed
qed

text \<open>
  What the loop does with an entry that is in the checkpoint and in the model with another
  shape (the keys of a dictionary are distinct): if the rank of the model's parameter is at most
  3 the entry is left as it is and an \<open>Ignore\<close> line is printed; otherwise \<open>inflate_weight\<close> is
  applied to it with the model parameter's third dimension as the time dimension, and its result
  replaces the entry.
\<close>

lemma load_state_dict_loop_policy:
  assumes "distinct (map fst state_dict)"
    and "inflate_loop model center (map fst state_dict) state_dict [] = Inr (sd, out)"
    and "map_of state_dict k = Some p" and "map_of model k = Some p3d"
    and "shape p \<noteq> shape p3d"
  shows "(length (shape p3d) \<le> 3 \<longrightarrow> map_of sd k = Some p \<and> Ignore_line k \<in> set out) \<and>
         (3 < length (shape p3d) \<longrightarrow>
            (\<exists>w. inflate_weight p (shape p3d ! 2) center = Inr w \<and> map_of sd k = Some w \<and>
                 Inflate_line k (shape p) (shape p3d) \<in> set out))"
proof -
  from assms(3) have "k \<in> set (map fst state_dict)"
    by (auto dest: map_of_SomeD intro: rev_image_eqI)
  from inflate_loop_entry [OF assms(2) assms(1) this assms(3) assms(4) assms(5)]
  show ?thesis .
qed

lemma load_state_dict_loop_policy_example:
  "distinct (map fst checkpoint_longer_pos_embed) \<and>
   inflate_loop example_model True (map fst checkpoint_longer_pos_embed)
       checkpoint_longer_pos_embed []
     = Inr (checkpoint_longer_pos_embed, [Ignore_line ''pos_embed'']) \<and>
   map_of checkpoint_longer_pos_embed ''pos_embed''
     = Some \<lparr>dtype = Float32, shape = [1, 3, 2], data = [1, 2, 3, 4, 5, 6]\<rparr> \<and>
   map_of example_model ''pos_embed'' = Some \<lparr>dtype = Float32, shape = [1, 2, 2], data = [0, 0, 0, 0]\<rparr>"
  by (simp add: checkpoint_longer_pos_embed_def example_model_def)

lemma load_param_mismatch:
  assumes "shape input_param \<noteq> shape param" and "shape param \<noteq> []"
  shows "load_param param input_param = Inr None"
  using assms by (simp add: load_param_def)

lemma load_params_mismatch:
  assumes "(k, param) \<in> set model" and "map_of sd k = Some input_param"
    and "shape input_param \<noteq> shape param" and "shape param \<noteq> []"
  shows "(\<exists>e. load_params model sd = Inl e) \<or>
         (\<exists>entries missing_keys error_msgs.
            load_params model sd = Inr (entries, missing_keys, error_msgs) \<and> k \<in> set error_msgs)"
  using assms(1)
proof (induction model)
  case Nil
  then show ?case by simp
next
  case (Cons entry model)
  obtain k' param' where entry: "entry = (k', param')" by (cases entry)
  show ?case
  proof (cases "load_params (entry # model) sd")
    case (Inl e)
    then show ?thesis by simp
  next
    case (Inr res)
    obtain entries missing_keys error_msgs where res: "res = (entries, missing_keys, error_msgs)"
      by (cases res)
    from Inr res entry obtain e1 m1 x1 es ms xs where
      first: "(case map_of sd k' of
                 None \<Rightarrow> Inr ((k', param'), [k'], [])
               | Some input_param \<Rightarrow>
                   bind_err (load_param param' input_param) (\<lambda>r.
                     case r of
                       None \<Rightarrow> Inr ((k', param'), [], [k'])
                     | Some v \<Rightarrow> Inr ((k', v), [], []))) = Inr (e1, m1, x1)"
      and rest: "load_params model sd = Inr (es, ms, xs)"
      and errs: "error_msgs = x1 @ xs"
      by (auto simp: bind_err_Inr_iff)
    show ?thesis
    proof (cases "(k, param) = entry")
      case True
      with entry have "k' = k" "param' = param" by simp_all
      with first assms(2) load_param_mismatch [OF assms(3,4)] have "x1 = [k]"
        by simp
      with Inr res errs show ?thesis by simp
    next
      case False
      with Cons.prems have "(k, param) \<in> set model" by simp
      from Cons.IH [OF this] rest have "k \<in> set xs" by simp
      with Inr res errs show ?thesis by simp
    qed
  qed
qed

lemma Module_load_state_dict_size_mismatch:
  assumes "(k, param) \<in> set model" and "map_of sd k = Some input_param"
    and "shape input_param \<noteq> shape param" and "shape param \<noteq> []"
  shows "\<exists>e. Module_load_state_dict model sd = Inl e"
  using load_params_mismatch [OF assms]
  by (auto simp: Module_load_state_dict_def)

lemma map_of_dict_delitem:
  assumes "dict_delitem k d = Inr d'" and "k' \<noteq> k"
  shows "map_of d' k' = map_of d k'"
  using assms by (auto simp: dict_delitem_def delete_conv' split: if_splits)

text \<open>
  In general: an entry that the loop ignores is fatal for the whole call.  If the checkpoint
  holds an entry (other than the two head entries) whose shape differs from the shape of the
  parameter of the model, and that parameter has rank 1, 2 or 3, then \<open>load_state_dict\<close> raises.
\<close>

lemma load_state_dict_ignored_entry_raises:
  assumes "distinct (map fst state_dict)"
    and "map_of state_dict k = Some p" and "map_of model k = Some p3d"
    and "shape p \<noteq> shape p3d" and "length (shape p3d) \<le> 3" and "shape p3d \<noteq> []"
    and "k \<noteq> ''head.weight''" and "k \<noteq> ''head.bias''"
  shows "\<exists>e. load_state_dict model state_dict center = Inl e"
proof (cases "load_state_dict_prepare model state_dict center")
  case (Inl e)
  then show ?thesis by (simp add: load_state_dict_def)
next
  case (Inr res)
  obtain sd out where res: "res = (sd, out)" by (cases res)
  with Inr obtain sd1 sd2 where
    loop: "inflate_loop model center (map fst state_dict) state_dict [] = Inr (sd1, out)"
    and d1: "dict_delitem ''head.weight'' sd1 = Inr sd2"
    and d2: "dict_delitem ''head.bias'' sd2 = Inr sd"
    by (auto simp: load_state_dict_prepare_def bind_err_Inr_iff)
  from load_state_dict_loop_policy [OF assms(1) loop assms(2,3,4)] assms(5)
  have "map_of sd1 k = Some p" by simp
  with map_of_dict_delitem [OF d1 assms(7)] map_of_dict_delitem [OF d2 assms(8)]
  have sd: "map_of sd k = Some p" by simp
  from assms(3) have "(k, p3d) \<in> set model" by (rule map_of_SomeD)
  from Module_load_state_dict_size_mismatch [OF this sd assms(4,6)] Inr res
  show ?thesis by (auto simp: load_state_dict_def)
qed

text \<open>
  Claim C8 says that such an entry of rank at most 3 is skipped and is not fatal.  The loop does
  skip it, but the skipped entry stays in the checkpoint that is handed to
  \<^verbatim>\<open>model.load_state_dict\<close>, and that call raises on the size mismatch, \<open>strict=False\<close> or not.
  For a checkpoint whose positional embedding has shape \<open>(1, 3, 2)\<close> where the model's has
  \<open>(1, 2, 2)\<close>: the loop prints the \<open>Ignore\<close> line and leaves the entry unmodified; the
  preparation succeeds; \<open>load_state_dict\<close> raises \<open>RuntimeError\<close>.
\<close>

theorem C8_ignored_entry_raises:
  "load_state_dict_prepare example_model checkpoint_longer_pos_embed True
     = Inr ([(''pos_embed'', \<lparr>dtype = Float32, shape = [1, 3, 2], data = [1, 2, 3, 4, 5, 6]\<rparr>),
             (''norm_f.weight'', \<lparr>dtype = Float32, shape = [2], data = [5, 6]\<rparr>)],
            [Ignore_line ''pos_embed'']) \<and>
   load_state_dict example_model checkpoint_longer_pos_embed True = Inl RuntimeError"
  by code_simp

section \<open>VideoMamba.py: construction of the encoder\<close>

text \<open>
  \<^verbatim>\<open>torch.linspace(start, end, steps)\<close>: \<open>steps\<close> values evenly spaced from \<open>start\<close> to \<open>end\<close>,
  both included; a single step gives \<open>start\<close> alone.
\<close>

definition linspace :: "rat \<Rightarrow> rat \<Rightarrow> nat \<Rightarrow> rat list" where
  "linspace start stop steps =
     (if steps = 1 then [start]
      else map (\<lambda>i. start + of_nat i * ((stop - start) / of_nat (steps - 1))) [0..<steps])"

text \<open>
  The stochastic-depth module of a block: \<^verbatim>\<open>DropPath(p) if p > 0.0 else nn.Identity()\<close>.
  \<open>drop_prob\<close> is the probability with which the module drops its input: that of \<open>DropPath\<close>,
  and zero for the identity.
\<close>

datatype drop_path_module = DropPath rat | Identity

fun drop_prob :: "drop_path_module \<Rightarrow> rat" where
  "drop_prob (DropPath p) = p"
| "drop_prob Identity = 0"

definition make_drop_path :: "rat \<Rightarrow> drop_path_module" where
  "make_drop_path p = (if p > 0 then DropPath p else Identity)"

datatype norm_kind = LayerNorm | RMSNorm

record block =
  block_dim :: nat
  block_norm :: norm_kind
  block_norm_eps :: rat
  block_bimamba :: bool
  block_fused_add_norm :: bool
  block_residual_in_fp32 :: bool
  block_drop_path :: drop_path_module
  block_layer_idx :: nat

text \<open>
  \<open>Block.__init__\<close> and \<open>create_block\<close>.  \<open>rmsnorm_imported\<close> says whether the import of
  \<open>RMSNorm\<close> and the fused kernels at the top of the file succeeded; otherwise the three names
  are \<open>None\<close>, the assertion in \<open>Block.__init__\<close> fails for a fused block, and building the
  norm class from \<open>None\<close> raises \<open>TypeError\<close>.
\<close>

definition Block_init ::
  "bool \<Rightarrow> nat \<Rightarrow> norm_kind \<Rightarrow> rat \<Rightarrow> bool \<Rightarrow> nat \<Rightarrow> bool \<Rightarrow> bool \<Rightarrow> rat \<Rightarrow> py_error + block" where
  "Block_init rmsnorm_imported d norm_cls eps bimamba layer_idx fused_add_norm residual_in_fp32
     drop_path =
     (if fused_add_norm \<and> \<not> rmsnorm_imported then Inl AssertionError
      else Inr \<lparr>block_dim = d, block_norm = norm_cls, block_norm_eps = eps,
                block_bimamba = bimamba, block_fused_add_norm = fused_add_norm,
                block_residual_in_fp32 = residual_in_fp32,
                block_drop_path = make_drop_path drop_path, block_layer_idx = layer_idx\<rparr>)"

definition create_block ::
  "bool \<Rightarrow> nat \<Rightarrow> rat \<Rightarrow> rat \<Rightarrow> bool \<Rightarrow> bool \<Rightarrow> bool \<Rightarrow> nat \<Rightarrow> bool \<Rightarrow> py_error + block" where
  "create_block rmsnorm_imported d_model norm_epsilon drop_path rms_norm residual_in_fp32
     fused_add_norm layer_idx bimamba =
     (if rms_norm \<and> \<not> rmsnorm_imported then Inl TypeError
      else Block_init rmsnorm_imported d_model (if \<not> rms_norm then LayerNorm else RMSNorm)
             norm_epsilon bimamba layer_idx fused_add_norm residual_in_fp32 drop_path)"

text \<open>
  The arguments of \<open>VisionMamba.__init__\<close> that the constructor uses (a depth is a number of
  steps for \<open>linspace\<close> and cannot be negative), and the model it builds.
\<close>

record vm_config =
  depth :: nat
  output_evo_num_channels :: nat
  embed_dim :: nat
  drop_rate :: rat
  drop_path_rate :: rat
  norm_epsilon :: rat
  fused_add_norm :: bool
  rms_norm :: bool
  residual_in_fp32 :: bool
  bimamba :: bool
  num_tokens :: nat
  use_checkpoint :: bool
  checkpoint_num :: int

record vision_mamba =
  vm_residual_in_fp32 :: bool
  vm_fused_add_norm :: bool
  vm_use_checkpoint :: bool
  vm_checkpoint_num :: int
  vm_embed_dim :: nat
  vm_output_evo_num_channels :: nat
  vm_sequence_length :: nat
  vm_pos_drop :: rat
  vm_drop_path :: drop_path_module
  vm_layers :: "block list"
  vm_norm_f :: norm_kind

text \<open>A list comprehension whose elements may raise: the first exception ends it.\<close>

fun collect :: "(py_error + 'a) list \<Rightarrow> py_error + 'a list" where
  "collect [] = Inr []"
| "collect (x # xs) = bind_err x (\<lambda>y. bind_err (collect xs) (\<lambda>ys. Inr (y # ys)))"

definition VisionMamba_init :: "bool \<Rightarrow> vm_config \<Rightarrow> py_error + vision_mamba" where
  "VisionMamba_init rmsnorm_imported cfg =
     (if drop_rate cfg < 0 \<or> 1 < drop_rate cfg then Inl ValueError
      else
        (let dpr = linspace 0 (drop_path_rate cfg) (depth cfg);
             inter_dpr = 0 # dpr
         in bind_err
              (collect
                 (map (\<lambda>i. create_block rmsnorm_imported (embed_dim cfg) (norm_epsilon cfg)
                              (inter_dpr ! i) (rms_norm cfg) (residual_in_fp32 cfg)
                              (fused_add_norm cfg) i (bimamba cfg))
                    [0..<depth cfg]))
              (\<lambda>layers.
                 if rms_norm cfg \<and> \<not> rmsnorm_imported then Inl TypeError
                 else Inr \<lparr>vm_residual_in_fp32 = residual_in_fp32 cfg,
                           vm_fused_add_norm = fused_add_norm cfg,
                           vm_use_checkpoint = use_checkpoint cfg,
                           vm_checkpoint_num = checkpoint_num cfg,
                           vm_embed_dim = embed_dim cfg,
                           vm_output_evo_num_channels = output_evo_num_channels cfg,
                           vm_sequence_length = num_tokens cfg,
                           vm_pos_drop = drop_rate cfg,
                           vm_drop_path = make_drop_path (drop_path_rate cfg),
                           vm_layers = layers,
                           vm_norm_f = (if \<not> rms_norm cfg then LayerNorm else RMSNorm)\<rparr>)))"

text \<open>The stochastic-depth rates of the blocks of a model, in block order.\<close>

definition stochastic_depth_rates :: "vision_mamba \<Rightarrow> rat list" where
  "stochastic_depth_rates vm = map (\<lambda>b. drop_prob (block_drop_path b)) (vm_layers vm)"

text \<open>
  \<open>videomamba_tiny\<close> without further keyword arguments: depth 12, RMS norm, residual in fp32
  and fused add-norm, every other argument at its default.
\<close>

definition videomamba_tiny_config :: vm_config where
  "videomamba_tiny_config =
     \<lparr>depth = 12, output_evo_num_channels = 4096, embed_dim = 192, drop_rate = 0,
      drop_path_rate = 1 / 10, norm_epsilon = 1 / 100000, fused_add_norm = True,
      rms_norm = True, residual_in_fp32 = True, bimamba = True, num_tokens = 64,
      use_checkpoint = False, checkpoint_num = 0\<rparr>"

subsection \<open>The stochastic-depth schedule\<close>

lemma collect_map_Inr:
  "collect (map f xs) = Inr ys \<Longrightarrow> length ys = length xs \<and> (\<forall>i<length xs. f (xs ! i) = Inr (ys ! i))"
proof (induction xs arbitrary: ys)
  case Nil
  then show ?case by simp
next
  case (Cons x xs)
  from Cons.prems obtain y ys' where y: "f x = Inr y" and ys': "collect (map f xs) = Inr ys'"
    and ys: "ys = y # ys'"
    by (auto simp: bind_err_Inr_iff)
  from Cons.IH [OF ys'] have len: "length ys' = length xs"
    and nth: "\<And>i. i < length xs \<Longrightarrow> f (xs ! i) = Inr (ys' ! i)"
    by simp_all
  show ?case
  proof (intro conjI allI impI)
    show "length ys = length (x # xs)" using len ys by simp
  next
    fix i assume "i < length (x # xs)"
    then show "f ((x # xs) ! i) = Inr (ys ! i)"
      using y ys nth by (cases i) simp_all
  qed
qed

lemma drop_prob_make_drop_path: "drop_prob (make_drop_path p) = max 0 p"
  by (simp add: make_drop_path_def)

lemma create_block_drop_path:
  "create_block env d eps p rms rfp fused i bi = Inr b \<Longrightarrow> block_drop_path b = make_drop_path p"
  by (auto simp: create_block_def Block_init_def split: if_splits)

lemma VisionMamba_init_layers:
  assumes "VisionMamba_init env cfg = Inr vm"
  shows "length (vm_layers vm) = depth cfg"
    and "i < depth cfg \<Longrightarrow>
           block_drop_path (vm_layers vm ! i)
             = make_drop_path ((0 # linspace 0 (drop_path_rate cfg) (depth cfg)) ! i)"
    and "vm_drop_path vm = make_drop_path (drop_path_rate cfg)"
proof -
  let ?f = "\<lambda>i. create_block env (embed_dim cfg) (norm_epsilon cfg)
                  ((0 # linspace 0 (drop_path_rate cfg) (depth cfg)) ! i) (rms_norm cfg)
                  (residual_in_fp32 cfg) (fused_add_norm cfg) i (bimamba cfg)"
  from assms obtain layers where c: "collect (map ?f [0..<depth cfg]) = Inr layers"
    and l: "vm_layers vm = layers" and d: "vm_drop_path vm = make_drop_path (drop_path_rate cfg)"
    by (auto simp: VisionMamba_init_def Let_def bind_err_Inr_iff split: if_splits)
  from collect_map_Inr [OF c] have len: "length layers = depth cfg"
    and nth: "\<And>i. i < depth cfg \<Longrightarrow> ?f i = Inr (layers ! i)"
    by simp_all
  show "length (vm_layers vm) = depth cfg" using len l by simp
  show "vm_drop_path vm = make_drop_path (drop_path_rate cfg)" by (rule d)
  show "block_drop_path (vm_layers vm ! i)
          = make_drop_path ((0 # linspace 0 (drop_path_rate cfg) (depth cfg)) ! i)"
    if "i < depth cfg"
    using create_block_drop_path [OF nth [OF that]] l by simp
qed

lemma linspace_nth:
  assumes "i < steps"
  shows "linspace 0 r steps ! i = r * of_nat i / of_nat (steps - 1)"
proof (cases "steps = 1")
  case True
  with assms show ?thesis by (simp add: linspace_def)
next
  case False
  with assms show ?thesis by (simp add: linspace_def)
qed

lemma stochastic_depth_rate_nth:
  assumes "VisionMamba_init env cfg = Inr vm" and "i < depth cfg"
  shows "stochastic_depth_rates vm ! i
           = (if i = 0 then 0
              else max 0 (drop_path_rate cfg * of_nat (i - 1) / of_nat (depth cfg - 1)))"
proof -
  have "stochastic_depth_rates vm ! i = drop_prob (block_drop_path (vm_layers vm ! i))"
    using assms(2) VisionMamba_init_layers(1) [OF assms(1)]
    by (simp add: stochastic_depth_rates_def)
  also have "\<dots> = max 0 ((0 # linspace 0 (drop_path_rate cfg) (depth cfg)) ! i)"
    using VisionMamba_init_layers(2) [OF assms] by (simp add: drop_prob_make_drop_path)
  also have "\<dots> = (if i = 0 then 0
              else max 0 (drop_path_rate cfg * of_nat (i - 1) / of_nat (depth cfg - 1)))"
  proof (cases i)
    case 0
    then show ?thesis by simp
  next
    case (Suc j)
    with assms(2) have "j < depth cfg" by simp
    from linspace_nth [OF this, of "drop_path_rate cfg"] Suc show ?thesis by simp
  qed
  finally show ?thesis .
qed

lemma schedule_mono:
  fixes r :: rat
  assumes "i \<le> j"
  shows "max 0 (r * of_nat (i - 1) / of_nat n) \<le> max 0 (r * of_nat (j - 1) / of_nat n)"
proof (cases "0 \<le> r")
  case True
  have "(of_nat (i - 1) :: rat) \<le> of_nat (j - 1)" using assms by simp
  then have "r * of_nat (i - 1) \<le> r * of_nat (j - 1)"
    using True by (rule mult_left_mono)
  then have "r * of_nat (i - 1) / of_nat n \<le> r * of_nat (j - 1) / of_nat n"
    by (rule divide_right_mono) simp
  then show ?thesis by simp
next
  case False
  then have "r * of_nat (i - 1) / of_nat n \<le> 0"
    by (simp add: divide_nonpos_nonneg mult_nonpos_nonneg)
  then show ?thesis by simp
qed

text \<open>
  Claim C1, as the code has it.  The schedule handed to the blocks is the \<open>linspace\<close> from 0 to
  the maximum rate \<open>r\<close> shifted by one place: block 0 gets the rate 0, and block \<open>i \<ge> 1\<close> gets
  the point \<open>i - 1\<close> of the schedule, \<open>r * (i - 1) / (depth - 1)\<close> (a value that is not positive
  gives the identity module, rate 0).  So the rates are non-decreasing in the block index, the
  last block has \<open>r * (depth - 2) / (depth - 1)\<close> and not \<open>r\<close>, and the maximum itself is the
  rate of the encoder's own drop path, which is applied after the last block.
\<close>

theorem C1_stochastic_depth_schedule:
  assumes "VisionMamba_init rmsnorm_imported cfg = Inr vm" and "1 \<le> depth cfg"
  shows "length (stochastic_depth_rates vm) = depth cfg \<and>
         stochastic_depth_rates vm ! 0 = 0 \<and>
         (\<forall>i. 1 \<le> i \<and> i < depth cfg \<longrightarrow>
            stochastic_depth_rates vm ! i
              = max 0 (drop_path_rate cfg * of_nat (i - 1) / of_nat (depth cfg - 1))) \<and>
         (\<forall>i j. i \<le> j \<and> j < depth cfg \<longrightarrow>
            stochastic_depth_rates vm ! i \<le> stochastic_depth_rates vm ! j) \<and>
         drop_prob (vm_drop_path vm) = max 0 (drop_path_rate cfg)"
proof (intro conjI allI impI)
  show "length (stochastic_depth_rates vm) = depth cfg"
    using VisionMamba_init_layers(1) [OF assms(1)] by (simp add: stochastic_depth_rates_def)
  show "stochastic_depth_rates vm ! 0 = 0"
    using stochastic_depth_rate_nth [OF assms(1), of 0] assms(2) by simp
  show "drop_prob (vm_drop_path vm) = max 0 (drop_path_rate cfg)"
    using VisionMamba_init_layers(3) [OF assms(1)] by (simp add: drop_prob_make_drop_path)
next
  fix i assume "1 \<le> i \<and> i < depth cfg"
  then show "stochastic_depth_rates vm ! i
               = max 0 (drop_path_rate cfg * of_nat (i - 1) / of_nat (depth cfg - 1))"
    using stochastic_depth_rate_nth [OF assms(1), of i] by simp
next
  fix i j assume ij: "i \<le> j \<and> j < depth cfg"
  let ?s = "\<lambda>k. max 0 (drop_path_rate cfg * of_nat (k - 1) / of_nat (depth cfg - 1))"
  have rate: "stochastic_depth_rates vm ! k = ?s k" if "k < depth cfg" for k
    using stochastic_depth_rate_nth [OF assms(1) that] by (cases "k = 0") simp_all
  from ij have "?s i \<le> ?s j" by (intro schedule_mono) simp
  with ij show "stochastic_depth_rates vm ! i \<le> stochastic_depth_rates vm ! j"
    by (simp add: rate)
qed

lemma videomamba_tiny_rates:
  "map_sum id stochastic_depth_rates (VisionMamba_init True videomamba_tiny_config)
     = Inr [0, 0, 1 / 110, 1 / 55, 3 / 110, 2 / 55, 1 / 22, 3 / 55, 7 / 110, 4 / 55, 9 / 110, 1 / 11]"
  by code_simp

definition last_block_rate :: "vision_mamba \<Rightarrow> rat" where
  "last_block_rate vm = last (stochastic_depth_rates vm)"

lemma videomamba_tiny_constructed: "\<exists>vm. VisionMamba_init True videomamba_tiny_config = Inr vm"
  using videomamba_tiny_rates
  by (cases "VisionMamba_init True videomamba_tiny_config") simp_all

theorem C1_stochastic_depth_schedule_witness:
  "\<exists>vm. VisionMamba_init True videomamba_tiny_config = Inr vm \<and>
     1 \<le> depth videomamba_tiny_config \<and>
     length (stochastic_depth_rates vm) = depth videomamba_tiny_config \<and>
     stochastic_depth_rates vm ! 0 = 0 \<and>
     (\<forall>i. 1 \<le> i \<and> i < depth videomamba_tiny_config \<longrightarrow>
        stochastic_depth_rates vm ! i
          = max 0 (drop_path_rate videomamba_tiny_config * of_nat (i - 1) /
                   of_nat (depth videomamba_tiny_config - 1))) \<and>
     (\<forall>i j. i \<le> j \<and> j < depth videomamba_tiny_config \<longrightarrow>
        stochastic_depth_rates vm ! i \<le> stochastic_depth_rates vm ! j) \<and>
     drop_prob (vm_drop_path vm) = max 0 (drop_path_rate videomamba_tiny_config)"
proof -
  from videomamba_tiny_constructed obtain vm where
    vm: "VisionMamba_init True videomamba_tiny_config = Inr vm" ..
  have d: "1 \<le> depth videomamba_tiny_config" by (simp add: videomamba_tiny_config_def)
  from C1_stochastic_depth_schedule [OF vm d] vm d show ?thesis by blast
qed

text \<open>
  Claim C1 as stated fails for \<open>videomamba_tiny\<close>: with depth 12 and maximum rate \<open>1/10\<close> the
  last block has the rate \<open>1/11\<close>.
\<close>

theorem C1_last_block_rate_counterexample:
  "1 \<le> depth videomamba_tiny_config \<and>
   drop_path_rate videomamba_tiny_config = 1 / 10 \<and>
   map_sum id last_block_rate (VisionMamba_init True videomamba_tiny_config) = Inr (1 / 11) \<and>
   (1 / 11 :: rat) \<noteq> 1 / 10"
proof -
  from videomamba_tiny_constructed obtain vm where
    vm: "VisionMamba_init True videomamba_tiny_config = Inr vm" ..
  with videomamba_tiny_rates have "stochastic_depth_rates vm =
      [0, 0, 1 / 110, 1 / 55, 3 / 110, 2 / 55, 1 / 22, 3 / 55, 7 / 110, 4 / 55, 9 / 110, 1 / 11]"
    by simp
  then have "last_block_rate vm = 1 / 11" by (simp add: last_block_rate_def)
  with vm show ?thesis by (simp add: videomamba_tiny_config_def)
qed

section \<open>VideoMamba.py: shapes in the forward pass\<close>

text \<open>
  The forward pass is modelled on the shapes of its tensors: every operation maps the shapes of
  its arguments to the shape of its result, or raises.  The mixer of a block (\<open>Mamba\<close>) is code
  of another library and is a parameter of the model, from the block and the shape of its
  input to the shape of its output.  \<open>rmsnorm_imported\<close> says, as in the constructor, whether
  the import of \<open>RMSNorm\<close> and of the fused kernels succeeded.
\<close>














subsection \<open>The shape of the output\<close>














section \<open>src/experimental/optimizers.py\<close>

text \<open>
  A model is a tree of modules.  A module has a class, of which only being \<open>LayerNorm\<close> or
  \<open>RMSNorm\<close> matters here, its own parameters in registration order (an entry registered as
  \<open>None\<close>, such as the bias of a linear layer without bias, has no parameter) and its named
  children.  A parameter is an object: \<open>param_id\<close> is its identity, and \<open>no_weight_decay_attr\<close>
  is the value of its attribute \<open>_no_weight_decay\<close> when it has been set.
\<close>

record parameter =
  param_id :: nat
  no_weight_decay_attr :: "bool option"

datatype module =
  Module (mod_class: "norm_kind option")
         (mod_parameters: "(string \<times> parameter option) list")
         (mod_modules: "(string \<times> module) list")

text \<open>
  \<open>named_parameters\<close> of torch: the modules are visited in pre-order, each with the dotted
  prefix of its path; a module yields its own parameters under \<open>prefix.name\<close>; a parameter
  object that was yielded before is not yielded again.
\<close>

definition join_prefix :: "string \<Rightarrow> string \<Rightarrow> string" where
  "join_prefix prefix name = prefix @ (if prefix = [] then [] else ''.'') @ name"

fun named_modules :: "string \<Rightarrow> module \<Rightarrow> (string \<times> module) list" where
  "named_modules prefix (Module c ps ms) =
     (prefix, Module c ps ms) #
     concat (map (\<lambda>nm. named_modules (join_prefix prefix (fst nm)) (snd nm)) ms)"

definition module_members :: "string \<times> module \<Rightarrow> (string \<times> parameter) list" where
  "module_members pm =
     List.map_filter (\<lambda>kv. map_option (\<lambda>v. (join_prefix (fst pm) (fst kv), v)) (snd kv))
       (mod_parameters (snd pm))"

fun remove_duplicate :: "('a \<Rightarrow> nat) \<Rightarrow> nat list \<Rightarrow> 'a list \<Rightarrow> 'a list" where
  "remove_duplicate ident memo [] = []"
| "remove_duplicate ident memo (x # xs) =
     (if ident x \<in> set memo then remove_duplicate ident memo xs
      else x # remove_duplicate ident (ident x # memo) xs)"

definition named_parameters :: "module \<Rightarrow> (string \<times> parameter) list" where
  "named_parameters model =
     remove_duplicate (\<lambda>np. param_id (snd np)) []
       (concat (map module_members (named_modules [] model)))"

text \<open>Python's \<^verbatim>\<open>name.split(".")\<close>: the pieces between the dots, at least one.\<close>

fun split_dot :: "string \<Rightarrow> string list" where
  "split_dot [] = [[]]"
| "split_dot (c # cs) =
     (if c = CHR ''.'' then [] # split_dot cs
      else (case split_dot cs of
              [] \<Rightarrow> [[c]]
            | w # ws \<Rightarrow> (c # w) # ws))"

text \<open>
  \<^verbatim>\<open>getattr(parent, k)\<close> for the name of a child: torch keeps the names of the parameters and
  of the children of a module apart, so the attribute is the child of that name, and a name
  that is no child raises \<open>AttributeError\<close>.  \<open>get_parent\<close> is the walk from the model along
  \<open>attrs\<close>.
\<close>

definition getattr_module :: "module \<Rightarrow> string \<Rightarrow> py_error + module" where
  "getattr_module parent k =
     (case map_of (mod_modules parent) k of
        None \<Rightarrow> Inl AttributeError
      | Some m \<Rightarrow> Inr m)"

fun get_parent :: "module \<Rightarrow> string list \<Rightarrow> py_error + module" where
  "get_parent parent [] = Inr parent"
| "get_parent parent (k # attrs) = bind_err (getattr_module parent k) (\<lambda>m. get_parent m attrs)"

text \<open>
  \<^verbatim>\<open>isinstance(parent, (nn.LayerNorm, RMSNorm))\<close>: when the import of \<open>RMSNorm\<close> failed the name
  is \<open>None\<close>, and the test raises \<open>TypeError\<close> as soon as it gets past \<open>nn.LayerNorm\<close>.
\<close>

definition isinstance_norm :: "bool \<Rightarrow> module \<Rightarrow> py_error + bool" where
  "isinstance_norm rmsnorm_imported parent =
     (if mod_class parent = Some LayerNorm then Inr True
      else if \<not> rmsnorm_imported then Inl TypeError
      else Inr (mod_class parent = Some RMSNorm))"

text \<open>\<^verbatim>\<open>getattr(p, "_no_weight_decay", False)\<close>, as a condition.\<close>

definition getattr_no_weight_decay :: "parameter \<Rightarrow> bool" where
  "getattr_no_weight_decay p = (case no_weight_decay_attr p of None \<Rightarrow> False | Some b \<Rightarrow> b)"

text \<open>
  The loop of \<open>build_optimizer_and_scheduler\<close> over the named parameters, with the two
  buckets it appends to.
\<close>

fun bucket_loop ::
  "bool \<Rightarrow> module \<Rightarrow> (string \<times> parameter) list \<Rightarrow> parameter list \<Rightarrow> parameter list \<Rightarrow>
     py_error + parameter list \<times> parameter list" where
  "bucket_loop rmsnorm_imported model [] params params_no_wd = Inr (params, params_no_wd)"
| "bucket_loop rmsnorm_imported model ((name, p) # rest) params params_no_wd =
     (let attrs = butlast (split_dot name); name = last (split_dot name)
      in bind_err (get_parent model attrs) (\<lambda>parent.
         bind_err (isinstance_norm rmsnorm_imported parent) (\<lambda>is_norm.
           if is_norm \<or> name = ''bias''
           then bucket_loop rmsnorm_imported model rest params (params_no_wd @ [p])
           else if getattr_no_weight_decay p
           then bucket_loop rmsnorm_imported model rest params (params_no_wd @ [p])
           else bucket_loop rmsnorm_imported model rest (params @ [p]) params_no_wd)))"

text \<open>
  \<open>build_optimizer_and_scheduler\<close>, up to the two parameter groups it hands to \<open>AdamW\<close>: the
  parameters with weight decay \<open>wd\<close> and the parameters with weight decay 0.
\<close>

definition build_optimizer_and_scheduler ::
  "bool \<Rightarrow> module \<Rightarrow> rat \<Rightarrow> py_error + (parameter list \<times> rat) \<times> (parameter list \<times> rat)" where
  "build_optimizer_and_scheduler rmsnorm_imported model wd =
     bind_err (bucket_loop rmsnorm_imported model (named_parameters model) [] [])
       (\<lambda>(params, params_no_wd). Inr ((params, wd), (params_no_wd, 0)))"

subsection \<open>The grouping policy\<close>

text \<open>
  The invariants torch keeps when modules and parameters are registered: within a module the
  names of the children and of the parameters are distinct and apart from each other, and no
  name is empty or contains a dot.
\<close>

fun wf_module :: "module \<Rightarrow> bool" where
  "wf_module (Module c ps ms) =
     (distinct (map fst ps @ map fst ms) \<and>
      (\<forall>n\<in>set (map fst ps @ map fst ms). n \<noteq> [] \<and> CHR ''.'' \<notin> set n) \<and>
      (\<forall>m\<in>set (map snd ms). wf_module m))"

text \<open>
  The policy in the words of the specification.  \<open>owned_parameters\<close> lists the parameters of
  the model in the order of the traversal (modules in pre-order, each with its own parameters,
  a parameter object only where it is met first), each with the module that owns it and its
  name in that module.  \<open>no_decay\<close> holds when the owner is a normalisation layer, or the name
  is \<open>bias\<close>, or the parameter carries the no-decay marker.
\<close>

fun submodules :: "module \<Rightarrow> module list" where
  "submodules (Module c ps ms) = Module c ps ms # concat (map (\<lambda>nm. submodules (snd nm)) ms)"

definition owned_members :: "module \<Rightarrow> (module \<times> string \<times> parameter) list" where
  "owned_members m =
     List.map_filter (\<lambda>kv. map_option (\<lambda>v. (m, fst kv, v)) (snd kv)) (mod_parameters m)"

definition owned_parameters :: "module \<Rightarrow> (module \<times> string \<times> parameter) list" where
  "owned_parameters model =
     remove_duplicate (\<lambda>x. param_id (snd (snd x))) [] (concat (map owned_members (submodules model)))"

definition no_decay :: "module \<times> string \<times> parameter \<Rightarrow> bool" where
  "no_decay x =
     (mod_class (fst x) = Some LayerNorm \<or> mod_class (fst x) = Some RMSNorm \<or>
      fst (snd x) = ''bias'' \<or> no_weight_decay_attr (snd (snd x)) = Some True)"

subsection \<open>Dotted names\<close>

fun dotted :: "string list \<Rightarrow> string" where
  "dotted [] = []"
| "dotted [n] = n"
| "dotted (n # ns) = n @ ''.'' @ dotted ns"

lemma split_dot_nonempty: "split_dot s \<noteq> []"
  by (induction s) (auto split: list.splits)

lemma split_dot_dot_free: "CHR ''.'' \<notin> set s \<Longrightarrow> split_dot s = [s]"
  by (induction s) auto

lemma split_dot_append:
  "CHR ''.'' \<notin> set a \<Longrightarrow> split_dot (a @ CHR ''.'' # b) = a # split_dot b"
  by (induction a) auto

lemma split_dot_dotted:
  assumes "ns \<noteq> []" and "\<forall>n\<in>set ns. CHR ''.'' \<notin> set n"
  shows "split_dot (dotted ns) = ns"
  using assms
proof (induction ns rule: dotted.induct)
  case 1
  then show ?case by simp
next
  case (2 n)
  then show ?case by (simp add: split_dot_dot_free)
next
  case (3 n v va)
  then show ?case by (simp add: split_dot_append)
qed

lemma dotted_eq_Nil:
  assumes "\<forall>n\<in>set ns. n \<noteq> []"
  shows "dotted ns = [] \<longleftrightarrow> ns = []"
  using assms by (induction ns rule: dotted.induct) auto

lemma dotted_snoc:
  assumes "\<forall>n\<in>set ns. n \<noteq> []"
  shows "join_prefix (dotted ns) k = dotted (ns @ [k])"
  using assms
proof (induction ns rule: dotted.induct)
  case 1
  then show ?case by (simp add: join_prefix_def)
next
  case (2 n)
  then show ?case by (simp add: join_prefix_def)
next
  case (3 n v va)
  then have ih: "join_prefix (dotted (v # va)) k = dotted ((v # va) @ [k])" by simp
  from 3 have ne: "dotted (v # va) \<noteq> []"
    using dotted_eq_Nil [of "v # va"] by simp
  from ih ne show ?case by (simp add: join_prefix_def)
qed

lemma split_dot_join_prefix:
  assumes "\<forall>n\<in>set path. n \<noteq> [] \<and> CHR ''.'' \<notin> set n" and "CHR ''.'' \<notin> set k"
  shows "split_dot (join_prefix (dotted path) k) = path @ [k]"
proof -
  have "join_prefix (dotted path) k = dotted (path @ [k])"
    using assms(1) by (intro dotted_snoc) simp
  moreover have "split_dot (dotted (path @ [k])) = path @ [k]"
    using assms by (intro split_dot_dotted) auto
  ultimately show ?thesis by simp
qed

subsection \<open>The traversal, with the path of every module\<close>

fun modules_at :: "string list \<Rightarrow> module \<Rightarrow> (string list \<times> module) list" where
  "modules_at path (Module c ps ms) =
     (path, Module c ps ms) #
     concat (map (\<lambda>nm. modules_at (path @ [fst nm]) (snd nm)) ms)"

definition annotated_members ::
  "string list \<times> module \<Rightarrow> (string list \<times> module \<times> string \<times> parameter) list" where
  "annotated_members pm =
     List.map_filter (\<lambda>kv. map_option (\<lambda>v. (fst pm, snd pm, fst kv, v)) (snd kv))
       (mod_parameters (snd pm))"

lemma map_map_filter:
  "map f (List.map_filter g xs) = List.map_filter (\<lambda>x. map_option f (g x)) xs"
  by (induction xs) (auto simp: map_filter_simps split: option.splits)

lemma named_modules_modules_at:
  assumes "\<forall>n\<in>set path. n \<noteq> []" and "wf_module m"
  shows "named_modules (dotted path) m = map (\<lambda>pm. (dotted (fst pm), snd pm)) (modules_at path m)"
  using assms
proof (induction path m rule: modules_at.induct)
  case (1 path c ps ms)
  have "named_modules (join_prefix (dotted path) (fst nm)) (snd nm)
          = map (\<lambda>pm. (dotted (fst pm), snd pm)) (modules_at (path @ [fst nm]) (snd nm))"
    if nm: "nm \<in> set ms" for nm
  proof -
    from nm "1.prems"(2) have ne: "fst nm \<noteq> []" and wf: "wf_module (snd nm)" by auto
    have "join_prefix (dotted path) (fst nm) = dotted (path @ [fst nm])"
      using "1.prems"(1) by (rule dotted_snoc)
    moreover have "named_modules (dotted (path @ [fst nm])) (snd nm)
          = map (\<lambda>pm. (dotted (fst pm), snd pm)) (modules_at (path @ [fst nm]) (snd nm))"
      using "1.prems"(1) ne wf by (intro "1.IH" [OF nm]) auto
    ultimately show ?thesis by simp
  qed
  then have "map (\<lambda>nm. named_modules (join_prefix (dotted path) (fst nm)) (snd nm)) ms
          = map (\<lambda>nm. map (\<lambda>pm. (dotted (fst pm), snd pm))
                         (modules_at (path @ [fst nm]) (snd nm))) ms"
    by (intro map_cong) simp_all
  then have "concat (map (\<lambda>nm. named_modules (join_prefix (dotted path) (fst nm)) (snd nm)) ms)
          = concat (map (\<lambda>nm. map (\<lambda>pm. (dotted (fst pm), snd pm))
                         (modules_at (path @ [fst nm]) (snd nm))) ms)"
    by (simp only:)
  then show ?case by (simp add: map_concat comp_def)
qed

lemma submodules_modules_at: "submodules m = map snd (modules_at path m)"
proof (induction path m rule: modules_at.induct)
  case (1 path c ps ms)
  have "map (\<lambda>nm. submodules (snd nm)) ms
          = map (\<lambda>nm. map snd (modules_at (path @ [fst nm]) (snd nm))) ms"
    using 1 by (intro map_cong) simp_all
  then have "concat (map (\<lambda>nm. submodules (snd nm)) ms)
          = concat (map (\<lambda>nm. map snd (modules_at (path @ [fst nm]) (snd nm))) ms)"
    by (simp only:)
  then show ?case by (simp add: map_concat comp_def)
qed

lemma getattr_module_child:
  assumes "wf_module (Module c ps ms)" and "nm \<in> set ms"
  shows "getattr_module (Module c ps ms) (fst nm) = Inr (snd nm)"
proof -
  from assms(1) have "distinct (map fst ms)" by simp
  moreover from assms(2) have "(fst nm, snd nm) \<in> set ms" by simp
  ultimately have "map_of ms (fst nm) = Some (snd nm)"
    by (rule map_of_is_SomeI)
  then show ?thesis by (simp add: getattr_module_def)
qed

lemma modules_at_parent:
  assumes "wf_module m" and "(pa, m') \<in> set (modules_at path m)"
  shows "\<exists>rel. pa = path @ rel \<and> get_parent m rel = Inr m' \<and>
               (\<forall>n\<in>set rel. n \<noteq> [] \<and> CHR ''.'' \<notin> set n) \<and> wf_module m'"
  using assms
proof (induction path m arbitrary: pa m' rule: modules_at.induct)
  case (1 path c ps ms)
  from "1.prems"(2) consider "pa = path" "m' = Module c ps ms"
    | nm where "nm \<in> set ms" "(pa, m') \<in> set (modules_at (path @ [fst nm]) (snd nm))"
    by auto
  then show ?case
  proof cases
    case 1
    with "1.prems"(1) show ?thesis by (intro exI [of _ "[]"]) simp
  next
    case (2 nm)
    from 2(1) "1.prems"(1) have wf: "wf_module (snd nm)"
      and ok: "fst nm \<noteq> [] \<and> CHR ''.'' \<notin> set (fst nm)"
      by auto
    from "1.IH" [OF 2(1) wf 2(2)] obtain rel where rel: "pa = (path @ [fst nm]) @ rel"
      and par: "get_parent (snd nm) rel = Inr m'"
      and names: "\<forall>n\<in>set rel. n \<noteq> [] \<and> CHR ''.'' \<notin> set n" and wf': "wf_module m'"
      by blast
    have "get_parent (Module c ps ms) (fst nm # rel) = Inr m'"
      using getattr_module_child [OF "1.prems"(1) 2(1)] par by simp
    with rel names ok wf' show ?thesis
      by (intro exI [of _ "fst nm # rel"]) simp
  qed
qed

definition annotated_parameters ::
  "module \<Rightarrow> (string list \<times> module \<times> string \<times> parameter) list" where
  "annotated_parameters model = concat (map annotated_members (modules_at [] model))"

definition annotated_name :: "string list \<times> module \<times> string \<times> parameter \<Rightarrow> string \<times> parameter" where
  "annotated_name a = (join_prefix (dotted (fst a)) (fst (snd (snd a))), snd (snd (snd a)))"

lemma module_members_annotated:
  "module_members (dotted (fst pm), snd pm) = map annotated_name (annotated_members pm)"
  by (simp add: module_members_def annotated_members_def annotated_name_def map_map_filter
      option.map_comp comp_def)

lemma owned_members_annotated: "owned_members (snd pm) = map snd (annotated_members pm)"
  by (simp add: owned_members_def annotated_members_def map_map_filter option.map_comp comp_def)

lemma named_members_annotated:
  assumes "wf_module model"
  shows "concat (map module_members (named_modules [] model))
           = map annotated_name (annotated_parameters model)"
proof -
  have "named_modules (dotted []) model
          = map (\<lambda>pm. (dotted (fst pm), snd pm)) (modules_at [] model)"
    using assms by (intro named_modules_modules_at) simp
  then have "map module_members (named_modules [] model)
          = map (\<lambda>pm. map annotated_name (annotated_members pm)) (modules_at [] model)"
    by (simp add: comp_def module_members_annotated)
  then show ?thesis
    by (simp add: annotated_parameters_def map_concat comp_def)
qed

lemma owned_members_all_annotated:
  "concat (map owned_members (submodules model)) = map snd (annotated_parameters model)"
proof -
  have "map owned_members (submodules model)
          = map (\<lambda>pm. map snd (annotated_members pm)) (modules_at [] model)"
    by (simp add: submodules_modules_at [of model "[]"] comp_def owned_members_annotated)
  then show ?thesis
    by (simp add: annotated_parameters_def map_concat comp_def)
qed

lemma remove_duplicate_map:
  "remove_duplicate ident memo (map f xs) = map f (remove_duplicate (\<lambda>x. ident (f x)) memo xs)"
  by (induction xs arbitrary: memo) simp_all

lemma remove_duplicate_subset: "set (remove_duplicate ident memo xs) \<subseteq> set xs"
  by (induction xs arbitrary: memo) auto

lemma remove_duplicate_distinct:
  "distinct (map ident (remove_duplicate ident memo xs)) \<and>
   set (map ident (remove_duplicate ident memo xs)) \<inter> set memo = {}"
proof (induction xs arbitrary: memo)
  case Nil
  then show ?case by simp
next
  case (Cons x xs)
  show ?case
  proof (cases "ident x \<in> set memo")
    case True
    with Cons.IH [of memo] show ?thesis by simp
  next
    case False
    with Cons.IH [of "ident x # memo"] show ?thesis by auto
  qed
qed

lemma annotated_member_ok:
  assumes "wf_module model" and "a \<in> set (annotated_parameters model)"
  shows "get_parent model (fst a) = Inr (fst (snd a)) \<and>
         split_dot (fst (annotated_name a)) = fst a @ [fst (snd (snd a))]"
proof -
  from assms(2) obtain pm where pm: "pm \<in> set (modules_at [] model)"
    and a: "a \<in> set (annotated_members pm)"
    by (auto simp: annotated_parameters_def)
  from a obtain k v where kv: "(k, Some v) \<in> set (mod_parameters (snd pm))"
    and a_eq: "a = (fst pm, snd pm, k, v)"
    by (auto simp: annotated_members_def map_filter_def)
  from pm have "(fst pm, snd pm) \<in> set (modules_at [] model)" by simp
  from modules_at_parent [OF assms(1) this] have par: "get_parent model (fst pm) = Inr (snd pm)"
    and names: "\<forall>n\<in>set (fst pm). n \<noteq> [] \<and> CHR ''.'' \<notin> set n"
    and wf: "wf_module (snd pm)"
    by auto
  from kv have "k \<in> set (map fst (mod_parameters (snd pm)))" by force
  with wf have k: "CHR ''.'' \<notin> set k" by (cases "snd pm") auto
  from split_dot_join_prefix [OF names k] par a_eq show ?thesis
    by (simp add: annotated_name_def)
qed

lemma bucket_loop_annotated:
  assumes "\<forall>a\<in>set as. get_parent model (fst a) = Inr (fst (snd a)) \<and>
             split_dot (fst (annotated_name a)) = fst a @ [fst (snd (snd a))]"
  shows "bucket_loop True model (map annotated_name as) params params_no_wd
           = Inr (params @ map (\<lambda>a. snd (snd (snd a))) (filter (\<lambda>a. \<not> no_decay (snd a)) as),
                  params_no_wd @ map (\<lambda>a. snd (snd (snd a))) (filter (\<lambda>a. no_decay (snd a)) as))"
  using assms
proof (induction as arbitrary: params params_no_wd)
  case Nil
  then show ?case by simp
next
  case (Cons a as)
  obtain name p where np: "annotated_name a = (name, p)" by (cases "annotated_name a")
  then have p: "p = snd (snd (snd a))" by (simp add: annotated_name_def)
  from Cons.prems np have par: "get_parent model (fst a) = Inr (fst (snd a))"
    and sp: "split_dot name = fst a @ [fst (snd (snd a))]"
    by simp_all
  note ih = Cons.IH [OF Cons.prems [THEN bspec [OF _ set_subset_Cons [THEN subsetD]], THEN ballI]]
  have isn: "isinstance_norm True (fst (snd a))
               = Inr (mod_class (fst (snd a)) = Some LayerNorm \<or>
                      mod_class (fst (snd a)) = Some RMSNorm)"
    by (simp add: isinstance_norm_def)
  have nd: "no_decay (snd a) \<longleftrightarrow>
              ((mod_class (fst (snd a)) = Some LayerNorm \<or> mod_class (fst (snd a)) = Some RMSNorm) \<or>
               fst (snd (snd a)) = ''bias'') \<or> getattr_no_weight_decay p"
    by (auto simp: no_decay_def getattr_no_weight_decay_def p split: option.splits)
  show ?case
  proof (cases "no_decay (snd a)")
    case True
    with nd have "bucket_loop True model (map annotated_name (a # as)) params params_no_wd
        = bucket_loop True model (map annotated_name as) params (params_no_wd @ [p])"
      using np par sp isn by (auto simp: Let_def)
    with True ih [of params "params_no_wd @ [p]"] p show ?thesis by simp
  next
    case False
    with nd have "bucket_loop True model (map annotated_name (a # as)) params params_no_wd
        = bucket_loop True model (map annotated_name as) (params @ [p]) params_no_wd"
      using np par sp isn by (auto simp: Let_def)
    with False ih [of "params @ [p]" params_no_wd] p show ?thesis by simp
  qed
qed

lemma bucket_loop_failed_import:
  assumes "\<forall>a\<in>set as. get_parent model (fst a) = Inr (fst (snd a)) \<and>
             split_dot (fst (annotated_name a)) = fst a @ [fst (snd (snd a))]"
    and "\<exists>a\<in>set as. mod_class (fst (snd a)) \<noteq> Some LayerNorm"
  shows "bucket_loop False model (map annotated_name as) params params_no_wd = Inl TypeError"
  using assms
proof (induction as arbitrary: params params_no_wd)
  case Nil
  then show ?case by simp
next
  case (Cons a as)
  obtain name p where np: "annotated_name a = (name, p)" by (cases "annotated_name a")
  from Cons.prems(1) np have par: "get_parent model (fst a) = Inr (fst (snd a))"
    and sp: "split_dot name = fst a @ [fst (snd (snd a))]"
    and rest: "\<forall>a\<in>set as. get_parent model (fst a) = Inr (fst (snd a)) \<and>
                 split_dot (fst (annotated_name a)) = fst a @ [fst (snd (snd a))]"
    by simp_all
  show ?case
  proof (cases "mod_class (fst (snd a)) = Some LayerNorm")
    case True
    with Cons.prems(2) have "\<exists>a\<in>set as. mod_class (fst (snd a)) \<noteq> Some LayerNorm" by auto
    from Cons.IH [OF rest this] True np par sp show ?thesis
      by (simp add: Let_def isinstance_norm_def)
  next
    case False
    with np par sp show ?thesis by (simp add: Let_def isinstance_norm_def)
  qed
qed

definition unique_annotated_parameters ::
  "module \<Rightarrow> (string list \<times> module \<times> string \<times> parameter) list" where
  "unique_annotated_parameters model =
     remove_duplicate (\<lambda>a. param_id (snd (snd (snd a)))) [] (annotated_parameters model)"

lemma named_parameters_unique:
  assumes "wf_module model"
  shows "named_parameters model = map annotated_name (unique_annotated_parameters model)"
  by (simp add: named_parameters_def named_members_annotated [OF assms]
      remove_duplicate_map unique_annotated_parameters_def annotated_name_def)

lemma owned_parameters_unique:
  "owned_parameters model = map snd (unique_annotated_parameters model)"
  by (simp add: owned_parameters_def owned_members_all_annotated remove_duplicate_map
      unique_annotated_parameters_def)

lemma unique_annotated_ok:
  assumes "wf_module model"
  shows "\<forall>a\<in>set (unique_annotated_parameters model).
           get_parent model (fst a) = Inr (fst (snd a)) \<and>
           split_dot (fst (annotated_name a)) = fst a @ [fst (snd (snd a))]"
proof
  fix a assume "a \<in> set (unique_annotated_parameters model)"
  then have "a \<in> set (annotated_parameters model)"
    unfolding unique_annotated_parameters_def using remove_duplicate_subset by (rule rev_subsetD)
  then show "get_parent model (fst a) = Inr (fst (snd a)) \<and>
            split_dot (fst (annotated_name a)) = fst a @ [fst (snd (snd a))]"
    by (rule annotated_member_ok [OF assms])
qed

lemma partition_mset:
  "mset (map f (filter (\<lambda>x. \<not> Q x) xs)) + mset (map f (filter Q xs)) = mset (map f xs)"
  by (induction xs) simp_all

lemma partition_disjoint:
  assumes "distinct (map f xs)"
  shows "set (map f (filter (\<lambda>x. \<not> Q x) xs)) \<inter> set (map f (filter Q xs)) = {}"
proof -
  from assms have inj: "inj_on f (set xs)" by (simp add: distinct_map)
  show ?thesis
  proof (rule ccontr)
    assume "set (map f (filter (\<lambda>x. \<not> Q x) xs)) \<inter> set (map f (filter Q xs)) \<noteq> {}"
    then obtain x y where "x \<in> set xs" "\<not> Q x" "y \<in> set xs" "Q y" "f x = f y"
      by auto
    with inj show False by (auto dest: inj_onD)
  qed
qed

subsection \<open>The grouping with \<open>RMSNorm\<close> imported\<close>

text \<open>
  When the import of \<open>RMSNorm\<close> succeeded, the two buckets built by
  \<open>build_optimizer_and_scheduler\<close> for a module tree as torch keeps it are the named
  parameters of the model split by the policy: the no-decay bucket holds, in traversal order,
  exactly the parameters whose owning module is a \<open>LayerNorm\<close> or \<open>RMSNorm\<close>, or whose name in
  the owner (the last component of the dotted name) is \<open>bias\<close>, or that carry the marker
  \<open>_no_weight_decay\<close>; the decay bucket holds the others in traversal order.  Every named
  parameter is in exactly one bucket: the two buckets together are the named parameters, and
  they have no parameter in common.
\<close>

lemma parameter_partition_imported:
  assumes "wf_module model"
  shows "\<exists>params params_no_wd.
     build_optimizer_and_scheduler True model wd
       = Inr ((params, wd), (params_no_wd, 0)) \<and>
     params = map (\<lambda>x. snd (snd x)) (filter (\<lambda>x. \<not> no_decay x) (owned_parameters model)) \<and>
     params_no_wd = map (\<lambda>x. snd (snd x)) (filter no_decay (owned_parameters model)) \<and>
     map (\<lambda>x. snd (snd x)) (owned_parameters model) = map snd (named_parameters model) \<and>
     map (\<lambda>x. fst (snd x)) (owned_parameters model)
       = map (\<lambda>np. last (split_dot (fst np))) (named_parameters model) \<and>
     distinct (map snd (named_parameters model)) \<and>
     mset params + mset params_no_wd = mset (map snd (named_parameters model)) \<and>
     set params \<inter> set params_no_wd = {}"
proof -
  define ans where "ans = unique_annotated_parameters model"
  let ?P = "\<lambda>a :: string list \<times> module \<times> string \<times> parameter. snd (snd (snd a))"
  have named: "named_parameters model = map annotated_name ans"
    unfolding ans_def using assms by (rule named_parameters_unique)
  have owned: "owned_parameters model = map snd ans"
    unfolding ans_def by (rule owned_parameters_unique)
  have ok: "\<forall>a\<in>set ans. get_parent model (fst a) = Inr (fst (snd a)) \<and>
              split_dot (fst (annotated_name a)) = fst a @ [fst (snd (snd a))]"
    unfolding ans_def using assms by (rule unique_annotated_ok)
  have loop: "bucket_loop True model (map annotated_name ans) [] []
                = Inr (map ?P (filter (\<lambda>a. \<not> no_decay (snd a)) ans),
                       map ?P (filter (\<lambda>a. no_decay (snd a)) ans))"
    using bucket_loop_annotated [OF ok, of "[]" "[]"] by simp
  define params where "params = map ?P (filter (\<lambda>a. \<not> no_decay (snd a)) ans)"
  define params_no_wd where "params_no_wd = map ?P (filter (\<lambda>a. no_decay (snd a)) ans)"
  have build: "build_optimizer_and_scheduler True model wd
                 = Inr ((params, wd), (params_no_wd, 0))"
    using loop
    by (simp add: build_optimizer_and_scheduler_def named params_def params_no_wd_def)
  have p1: "params = map (\<lambda>x. snd (snd x)) (filter (\<lambda>x. \<not> no_decay x) (owned_parameters model))"
    by (simp add: params_def owned filter_map comp_def)
  have p2: "params_no_wd = map (\<lambda>x. snd (snd x)) (filter no_decay (owned_parameters model))"
    by (simp add: params_no_wd_def owned filter_map comp_def)
  have vals: "map snd (named_parameters model) = map ?P ans"
    by (simp add: named annotated_name_def comp_def)
  have o1: "map (\<lambda>x. snd (snd x)) (owned_parameters model) = map snd (named_parameters model)"
    by (simp add: vals owned comp_def)
  have o2: "map (\<lambda>x. fst (snd x)) (owned_parameters model)
              = map (\<lambda>np. last (split_dot (fst np))) (named_parameters model)"
    using ok by (simp add: owned named comp_def)
  have "distinct (map param_id (map ?P ans))"
    using remove_duplicate_distinct [of "\<lambda>a. param_id (snd (snd (snd a)))" "[]"
        "annotated_parameters model"]
    by (simp add: ans_def unique_annotated_parameters_def comp_def)
  then have dist_ans: "distinct (map ?P ans)"
    by (simp only: distinct_map [of param_id])
  then have d: "distinct (map snd (named_parameters model))" by (simp only: vals)
  have m: "mset params + mset params_no_wd = mset (map snd (named_parameters model))"
    unfolding params_def params_no_wd_def vals by (rule partition_mset)
  have i: "set params \<inter> set params_no_wd = {}"
    unfolding params_def params_no_wd_def using dist_ans by (rule partition_disjoint)
  from build p1 p2 o1 o2 d m i show ?thesis by (intro exI conjI)
qed

text \<open>
  A small encoder as a module tree: the positional embedding, one block (a mixer with two
  marked parameters, a projection without bias and a convolution with bias, and an RMS norm),
  the final norm, and the embedding projection.
\<close>

definition example_module :: module where
  "example_module =
     Module None [(''pos_embed'', Some \<lparr>param_id = 0, no_weight_decay_attr = None\<rparr>)]
       [(''layers'', Module None []
           [(''0'', Module None []
               [(''mixer'', Module None
                    [(''A_log'', Some \<lparr>param_id = 1, no_weight_decay_attr = Some True\<rparr>),
                     (''D'', Some \<lparr>param_id = 2, no_weight_decay_attr = Some True\<rparr>)]
                    [(''in_proj'', Module None
                        [(''weight'', Some \<lparr>param_id = 3, no_weight_decay_attr = None\<rparr>),
                         (''bias'', None)] []),
                     (''conv1d'', Module None
                        [(''weight'', Some \<lparr>param_id = 4, no_weight_decay_attr = None\<rparr>),
                         (''bias'', Some \<lparr>param_id = 5, no_weight_decay_attr = None\<rparr>)] [])]),
                (''norm'', Module (Some RMSNorm)
                    [(''weight'', Some \<lparr>param_id = 6, no_weight_decay_attr = None\<rparr>)] [])])]),
        (''norm_f'', Module (Some RMSNorm)
           [(''weight'', Some \<lparr>param_id = 7, no_weight_decay_attr = None\<rparr>)] []),
        (''embedding'', Module None []
           [(''proj'', Module None
               [(''weight'', Some \<lparr>param_id = 8, no_weight_decay_attr = None\<rparr>),
                (''bias'', Some \<lparr>param_id = 9, no_weight_decay_attr = None\<rparr>)] [])])]"

lemma wf_example_module: "wf_module example_module"
  by (simp add: example_module_def)

lemma build_optimizer_and_scheduler_example:
  "build_optimizer_and_scheduler True example_module (1 / 10) =
     Inr (([\<lparr>param_id = 0, no_weight_decay_attr = None\<rparr>,
            \<lparr>param_id = 3, no_weight_decay_attr = None\<rparr>,
            \<lparr>param_id = 4, no_weight_decay_attr = None\<rparr>,
            \<lparr>param_id = 8, no_weight_decay_attr = None\<rparr>], 1 / 10),
          ([\<lparr>param_id = 1, no_weight_decay_attr = Some True\<rparr>,
            \<lparr>param_id = 2, no_weight_decay_attr = Some True\<rparr>,
            \<lparr>param_id = 5, no_weight_decay_attr = None\<rparr>,
            \<lparr>param_id = 6, no_weight_decay_attr = None\<rparr>,
            \<lparr>param_id = 7, no_weight_decay_attr = None\<rparr>,
            \<lparr>param_id = 9, no_weight_decay_attr = None\<rparr>], 0))"
  by code_simp

subsection \<open>The grouping after a failed import\<close>

text \<open>
  When the import of \<open>RMSNorm\<close> failed, the grouping raises \<open>TypeError\<close> for every module tree
  with a parameter whose owner is not a \<open>LayerNorm\<close>: the loop reaches the first such parameter
  and the test of its owner raises.
\<close>

lemma build_optimizer_and_scheduler_failed_import:
  assumes "wf_module model"
    and "\<exists>x\<in>set (owned_parameters model). mod_class (fst x) \<noteq> Some LayerNorm"
  shows "build_optimizer_and_scheduler False model wd = Inl TypeError"
proof -
  from assms(2) have "\<exists>a\<in>set (unique_annotated_parameters model).
                        mod_class (fst (snd a)) \<noteq> Some LayerNorm"
    by (simp add: owned_parameters_unique)
  from bucket_loop_failed_import [OF unique_annotated_ok [OF assms(1)] this, of "[]" "[]"]
  show ?thesis
    by (simp add: build_optimizer_and_scheduler_def named_parameters_unique [OF assms(1)])
qed

text \<open>
  A model of torch layers only, as \<^verbatim>\<open>nn.Sequential(nn.Linear(..), nn.LayerNorm(..))\<close>: a linear
  layer with a bias, followed by a layer norm.
\<close>

definition linear_layer_norm_module :: module where
  "linear_layer_norm_module =
     Module None []
       [(''0'', Module None
           [(''weight'', Some \<lparr>param_id = 0, no_weight_decay_attr = None\<rparr>),
            (''bias'', Some \<lparr>param_id = 1, no_weight_decay_attr = None\<rparr>)] []),
        (''1'', Module (Some LayerNorm)
           [(''weight'', Some \<lparr>param_id = 2, no_weight_decay_attr = None\<rparr>),
            (''bias'', Some \<lparr>param_id = 3, no_weight_decay_attr = None\<rparr>)] [])]"

lemma wf_linear_layer_norm_module: "wf_module linear_layer_norm_module"
  by (simp add: linear_layer_norm_module_def)

text \<open>
  Claim C7 says that for every model the grouping places every named parameter in exactly one
  bucket.  The module sets \<open>RMSNorm\<close> to \<open>None\<close> when its import fails and goes on, but the
  grouping still evaluates \<^verbatim>\<open>isinstance(parent, (nn.LayerNorm, RMSNorm))\<close>.  For the model of a
  linear layer and a layer norm, which has four named parameters, the grouping then raises
  \<open>TypeError\<close> at the weight of the linear layer and builds no bucket; with \<open>RMSNorm\<close> imported
  the same model is grouped as the claim says.
\<close>

theorem C7_failed_import_raises:
  "named_parameters linear_layer_norm_module
     = [(''0.weight'', \<lparr>param_id = 0, no_weight_decay_attr = None\<rparr>),
        (''0.bias'', \<lparr>param_id = 1, no_weight_decay_attr = None\<rparr>),
        (''1.weight'', \<lparr>param_id = 2, no_weight_decay_attr = None\<rparr>),
        (''1.bias'', \<lparr>param_id = 3, no_weight_decay_attr = None\<rparr>)] \<and>
   build_optimizer_and_scheduler False linear_layer_norm_module (1 / 10) = Inl TypeError \<and>
   build_optimizer_and_scheduler True linear_layer_norm_module (1 / 10)
     = Inr (([\<lparr>param_id = 0, no_weight_decay_attr = None\<rparr>], 1 / 10),
            ([\<lparr>param_id = 1, no_weight_decay_attr = None\<rparr>,
              \<lparr>param_id = 2, no_weight_decay_attr = None\<rparr>,
              \<lparr>param_id = 3, no_weight_decay_attr = None\<rparr>], 0))"
  by code_simp

end
